theory Spec2Isabelle
  imports Main
begin

section \<open>Python values used by date_utils\<close>

text \<open>
  The package is Python 2 code (setup.py lists 2.6 and 2.7). Python integers are unbounded
  and are modelled by \<open>int\<close>; on integers Python 2's \<open>/\<close> and \<open>//\<close> are floor
  division and \<open>%\<close> takes the sign of the divisor, which is what \<open>div\<close> and \<open>mod\<close>
  on \<open>int\<close> do. An exception raised by the code is a value \<open>Inl e\<close> of the result.
\<close>

datatype error = ValueError | TypeError | OverflowError | IndexError | UnknownTimeZoneError

definition bind :: "error + 'a \<Rightarrow> ('a \<Rightarrow> error + 'b) \<Rightarrow> error + 'b" where
  "bind m f = (case m of Inl e \<Rightarrow> Inl e | Inr x \<Rightarrow> f x)"

text \<open>\<open>range(a, b)\<close> of Python 2: the list a, a+1, ..., b-1.\<close>

definition py_range :: "int \<Rightarrow> int \<Rightarrow> int list" where
  "py_range a b = [a..b - 1]"

subsection \<open>datetime.date and datetime.datetime\<close>

text \<open>
  \<open>datetime.tzinfo\<close> objects that occur: the package's own class \<open>TZInfo(offset)\<close>, a
  fixed offset in seconds (or \<open>None\<close>, which is what \<open>parsedate_tz\<close> yields for a text
  without a zone), and the objects of pytz: its one UTC object, and for each zone of the
  database one object per transition info (offset from UTC in seconds, daylight saving
  offset in seconds, abbreviation) of that zone. A pytz object is the same object as
  another exactly when both are the UTC object or both belong to the same zone and carry
  the same transition info; a \<open>TZInfo\<close> is never the same object as a pytz object.

  \<open>TZInfo.utcoffset\<close> builds \<open>timedelta(seconds=self.offset)\<close>: a TypeError when the
  offset is \<open>None\<close>, an OverflowError when it amounts to more than 999999999 days.
\<close>

type_synonym transition_info = "int \<times> int \<times> string"

datatype tzinfo = TZInfo "int option" | PytzUTC | PytzInfo string transition_info

fun utcoffset :: "tzinfo \<Rightarrow> error + int" where
  "utcoffset (TZInfo None) = Inl TypeError"
| "utcoffset (TZInfo (Some offset)) =
     (if - 999999999 \<le> offset div 86400 \<and> offset div 86400 \<le> 999999999 then Inr offset
      else Inl OverflowError)"
| "utcoffset PytzUTC = Inr 0"
| "utcoffset (PytzInfo name info) = Inr (fst info)"

record date =
  year :: int
  month :: int
  day :: int

text \<open>\<open>datetime.datetime\<close> is a subclass of \<open>datetime.date\<close>: the record extends it.\<close>

record datetime = date +
  hour :: int
  minute :: int
  second :: int
  microsecond :: int
  tzinfo :: "tzinfo option"

subsection \<open>The proleptic Gregorian calendar of the datetime module\<close>

text \<open>
  The helpers of CPython's datetime module, as \<open>Lib/datetime.py\<close> writes them. Index 0 of
  the two tables is a placeholder.
\<close>

definition MINYEAR :: int where "MINYEAR = 1"
definition MAXYEAR :: int where "MAXYEAR = 9999"
definition MAXORDINAL :: int where "MAXORDINAL = 3652059"

definition DAYS_IN_MONTH :: "int list" where
  "DAYS_IN_MONTH = [-1, 31, 28, 31, 30, 31, 30, 31, 31, 30, 31, 30, 31]"

definition DAYS_BEFORE_MONTH :: "int list" where
  "DAYS_BEFORE_MONTH = [-1, 0, 31, 59, 90, 120, 151, 181, 212, 243, 273, 304, 334]"

definition is_leap :: "int \<Rightarrow> bool" where
  "is_leap y \<longleftrightarrow> y mod 4 = 0 \<and> (y mod 100 \<noteq> 0 \<or> y mod 400 = 0)"

definition days_before_year :: "int \<Rightarrow> int" where
  "days_before_year y0 = (let y = y0 - 1 in y * 365 + y div 4 - y div 100 + y div 400)"

definition days_in_month :: "int \<Rightarrow> int \<Rightarrow> int" where
  "days_in_month y m = (if m = 2 \<and> is_leap y then 29 else DAYS_IN_MONTH ! nat m)"

definition days_before_month :: "int \<Rightarrow> int \<Rightarrow> int" where
  "days_before_month y m =
     DAYS_BEFORE_MONTH ! nat m + (if m > 2 \<and> is_leap y then 1 else 0)"

definition ymd2ord :: "int \<Rightarrow> int \<Rightarrow> int \<Rightarrow> int" where
  "ymd2ord y m d = days_before_year y + days_before_month y m + d"

definition DI400Y :: int where "DI400Y = 146097"
definition DI100Y :: int where "DI100Y = 36524"
definition DI4Y :: int where "DI4Y = 1461"

definition ord2ymd :: "int \<Rightarrow> int \<times> int \<times> int" where
  "ord2ymd n0 =
    (let n = n0 - 1;
         n400 = n div DI400Y; n = n mod DI400Y;
         y = n400 * 400 + 1;
         n100 = n div DI100Y; n = n mod DI100Y;
         n4 = n div DI4Y; n = n mod DI4Y;
         n1 = n div 365; n = n mod 365;
         y = y + (n100 * 100 + n4 * 4 + n1)
     in if n1 = 4 \<or> n100 = 4 then (y - 1, 12, 31)
        else
          let leapyear = (n1 = 3 \<and> (n4 \<noteq> 24 \<or> n100 = 3));
              m = (n + 50) div 32;
              preceding = DAYS_BEFORE_MONTH ! nat m + (if m > 2 \<and> leapyear then 1 else 0);
              (m, preceding) =
                (if preceding > n
                 then (m - 1, preceding -
                         (DAYS_IN_MONTH ! nat (m - 1) + (if m - 1 = 2 \<and> leapyear then 1 else 0)))
                 else (m, preceding));
              n = n - preceding
          in (y, m, n + 1))"

text \<open>
  The last step of \<open>ord2ymd\<close> on its own, month and day from the leap-year flag and the
  offset into the year, and the property of it that the proofs below check for every
  offset.
\<close>

definition month_day_of :: "bool \<Rightarrow> int \<Rightarrow> int \<times> int" where
  "month_day_of leapyear n =
     (let m = (n + 50) div 32;
          preceding = DAYS_BEFORE_MONTH ! nat m + (if m > 2 \<and> leapyear then 1 else 0);
          (m, preceding) =
            (if preceding > n
             then (m - 1, preceding -
                     (DAYS_IN_MONTH ! nat (m - 1) + (if m - 1 = 2 \<and> leapyear then 1 else 0)))
             else (m, preceding));
          n = n - preceding
      in (m, n + 1))"

definition month_day_ok :: "bool \<Rightarrow> int \<Rightarrow> bool" where
  "month_day_ok leapyear n =
     (case month_day_of leapyear n of (m, d) \<Rightarrow>
        1 \<le> m \<and> m \<le> 12 \<and> 1 \<le> d \<and>
        d \<le> (if m = 2 \<and> leapyear then 29 else DAYS_IN_MONTH ! nat m) \<and>
        DAYS_BEFORE_MONTH ! nat m + (if m > 2 \<and> leapyear then 1 else 0) + d = n + 1)"

text \<open>
  The constructor \<open>date(year, month, day)\<close> checks its fields and raises ValueError; every
  date object that exists satisfies \<open>valid_date\<close>.
\<close>

definition valid_date :: "'a date_scheme \<Rightarrow> bool" where
  "valid_date d \<longleftrightarrow>
     MINYEAR \<le> year d \<and> year d \<le> MAXYEAR \<and> 1 \<le> month d \<and> month d \<le> 12 \<and>
     1 \<le> day d \<and> day d \<le> days_in_month (year d) (month d)"

definition date_new :: "int \<Rightarrow> int \<Rightarrow> int \<Rightarrow> error + date" where
  "date_new y m d =
     (if MINYEAR \<le> y \<and> y \<le> MAXYEAR \<and> 1 \<le> m \<and> m \<le> 12 \<and> 1 \<le> d \<and> d \<le> days_in_month y m
      then Inr \<lparr>year = y, month = m, day = d\<rparr> else Inl ValueError)"

definition toordinal :: "'a date_scheme \<Rightarrow> int" where
  "toordinal d = ymd2ord (year d) (month d) (day d)"

definition fromordinal :: "int \<Rightarrow> date" where
  "fromordinal n = (case ord2ymd n of (y, m, d) \<Rightarrow> \<lparr>year = y, month = m, day = d\<rparr>)"

text \<open>Comparison of dates is comparison of the triples (year, month, day).\<close>

definition date_less :: "'a date_scheme \<Rightarrow> 'b date_scheme \<Rightarrow> bool" where
  "date_less a b \<longleftrightarrow>
     year a < year b \<or> (year a = year b \<and> (month a < month b \<or> (month a = month b \<and> day a < day b)))"

definition date_le :: "'a date_scheme \<Rightarrow> 'b date_scheme \<Rightarrow> bool" where
  "date_le a b \<longleftrightarrow> date_less a b \<or> (year a = year b \<and> month a = month b \<and> day a = day b)"

text \<open>\<open>date + timedelta(days=k)\<close> and \<open>date - timedelta(days=k)\<close>.\<close>

definition date_add_days :: "date \<Rightarrow> int \<Rightarrow> error + date" where
  "date_add_days d k =
     (let n = toordinal d + k
      in if 0 < n \<and> n \<le> MAXORDINAL then Inr (fromordinal n) else Inl OverflowError)"

definition date_sub_days :: "date \<Rightarrow> int \<Rightarrow> error + date" where
  "date_sub_days d k = date_add_days d (- k)"

text \<open>\<open>(a - b).days\<close> for two dates.\<close>

definition date_diff_days :: "'a date_scheme \<Rightarrow> 'b date_scheme \<Rightarrow> int" where
  "date_diff_days a b = toordinal a - toordinal b"

definition weekday :: "'a date_scheme \<Rightarrow> int" where
  "weekday d = (toordinal d + 6) mod 7"


text \<open>\<open>datetime.date()\<close>: the date part of a datetime.\<close>

definition datetime_date :: "'a date_scheme \<Rightarrow> date" where
  "datetime_date dt = \<lparr>year = year dt, month = month dt, day = day dt\<rparr>"

text \<open>
  The constructor \<open>datetime(year, month, day, hour, minute, second, microsecond, tzinfo)\<close>
  raises ValueError for a field out of range; its arguments are first converted to C
  integers, and a number that does not fit raises OverflowError.
\<close>

definition fits_c_int :: "int \<Rightarrow> bool" where
  "fits_c_int x \<longleftrightarrow> - 2147483648 \<le> x \<and> x \<le> 2147483647"

definition valid_datetime :: "datetime \<Rightarrow> bool" where
  "valid_datetime dt \<longleftrightarrow>
     valid_date dt \<and> 0 \<le> hour dt \<and> hour dt \<le> 23 \<and> 0 \<le> minute dt \<and> minute dt \<le> 59 \<and>
     0 \<le> second dt \<and> second dt \<le> 59 \<and> 0 \<le> microsecond dt \<and> microsecond dt \<le> 999999"

definition datetime_new ::
  "int \<Rightarrow> int \<Rightarrow> int \<Rightarrow> int \<Rightarrow> int \<Rightarrow> int \<Rightarrow> int \<Rightarrow> tzinfo option \<Rightarrow> error + datetime" where
  "datetime_new y m d hh mm ss us tz =
     (let dt = \<lparr>year = y, month = m, day = d, hour = hh, minute = mm, second = ss,
                microsecond = us, tzinfo = tz\<rparr>
      in if \<not> (fits_c_int y \<and> fits_c_int m \<and> fits_c_int d \<and> fits_c_int hh \<and> fits_c_int mm
                \<and> fits_c_int ss \<and> fits_c_int us) then Inl OverflowError
         else if valid_datetime dt then Inr dt else Inl ValueError)"

text \<open>
  \<open>datetime.timedelta\<close>, normalised by its constructor to days, seconds in 0..86399 and
  microseconds in 0..999999.
\<close>

record timedelta =
  days :: int
  seconds :: int
  microseconds :: int

definition timedelta_new :: "int \<Rightarrow> int \<Rightarrow> int \<Rightarrow> timedelta" where
  "timedelta_new d s us =
     (let s = s + us div 1000000; us = us mod 1000000;
          d = d + s div 86400; s = s mod 86400
      in \<lparr>days = d, seconds = s, microseconds = us\<rparr>)"

definition timedelta_neg :: "timedelta \<Rightarrow> timedelta" where
  "timedelta_neg t = timedelta_new (- days t) (- seconds t) (- microseconds t)"

text \<open>
  \<open>datetime + timedelta\<close>: the datetime is turned into a timedelta since day 0, the sum is
  split again, and a result outside the years 1..9999 raises OverflowError. The tzinfo is
  kept.
\<close>

definition datetime_add :: "datetime \<Rightarrow> timedelta \<Rightarrow> error + datetime" where
  "datetime_add dt other =
     (let delta = timedelta_new (toordinal dt + days other)
                    (hour dt * 3600 + minute dt * 60 + second dt + seconds other)
                    (microsecond dt + microseconds other);
          hh = seconds delta div 3600; rem = seconds delta mod 3600;
          mm = rem div 60; ss = rem mod 60
      in if 0 < days delta \<and> days delta \<le> MAXORDINAL
         then (let d = fromordinal (days delta)
               in Inr \<lparr>year = year d, month = month d, day = day d, hour = hh, minute = mm,
                       second = ss, microsecond = microseconds delta, tzinfo = tzinfo dt\<rparr>)
         else Inl OverflowError)"

definition datetime_sub :: "datetime \<Rightarrow> timedelta \<Rightarrow> error + datetime" where
  "datetime_sub dt other = datetime_add dt (timedelta_neg other)"

text \<open>\<open>date.isocalendar()\<close>: ISO year, ISO week number and ISO weekday.\<close>

definition isoweek1monday :: "int \<Rightarrow> int" where
  "isoweek1monday y =
     (let THURSDAY = 3;
          firstday = ymd2ord y 1 1;
          firstweekday = (firstday + 6) mod 7;
          week1monday = firstday - firstweekday
      in if firstweekday > THURSDAY then week1monday + 7 else week1monday)"

definition isocalendar :: "'a date_scheme \<Rightarrow> int \<times> int \<times> int" where
  "isocalendar d =
     (let y = year d;
          week1monday = isoweek1monday y;
          today = ymd2ord (year d) (month d) (day d);
          week = (today - week1monday) div 7; wd = (today - week1monday) mod 7
      in if week < 0
         then (let y = y - 1;
                   week1monday = isoweek1monday y;
                   week = (today - week1monday) div 7; wd = (today - week1monday) mod 7
               in (y, week + 1, wd + 1))
         else if week \<ge> 52 \<and> today \<ge> isoweek1monday (y + 1)
         then (y + 1, 0 + 1, wd + 1)
         else (y, week + 1, wd + 1))"

subsection \<open>The calendar and time modules\<close>

text \<open>\<open>calendar.isleap\<close>, \<open>calendar.mdays\<close> and \<open>calendar.monthrange\<close>.\<close>

definition isleap :: "int \<Rightarrow> bool" where
  "isleap y \<longleftrightarrow> y mod 4 = 0 \<and> (y mod 100 \<noteq> 0 \<or> y mod 400 = 0)"

definition mdays :: "int list" where
  "mdays = [0, 31, 28, 31, 30, 31, 30, 31, 31, 30, 31, 30, 31]"

definition monthrange :: "int \<Rightarrow> int \<Rightarrow> error + (int \<times> int)" where
  "monthrange y m =
     (if \<not> (1 \<le> m \<and> m \<le> 12) then Inl ValueError
      else bind (date_new y m 1) (\<lambda>first.
        let day1 = weekday first;
            ndays = mdays ! nat m + (if m = 2 \<and> isleap y then 1 else 0)
        in Inr (day1, ndays)))"

text \<open>The fields of \<open>time.struct_time\<close> that \<open>time.mktime\<close> reads.\<close>

record struct_time =
  tm_year :: int
  tm_mon :: int
  tm_mday :: int
  tm_hour :: int
  tm_min :: int
  tm_sec :: int

text \<open>
  \<open>_strptime._calc_julian_from_U_or_W\<close>: the day of the year of a weekday (Monday = 0) in
  a week of the year, where week 0 holds the days before the year's first Monday (for
  \<open>%W\<close>) or first Sunday (for \<open>%U\<close>).
\<close>

definition calc_julian_from_U_or_W :: "int \<Rightarrow> int \<Rightarrow> int \<Rightarrow> bool \<Rightarrow> int" where
  "calc_julian_from_U_or_W y week_of_year day_of_week week_starts_Mon =
     (let first_weekday = (ymd2ord y 1 1 + 6) mod 7;
          (first_weekday, day_of_week) =
             (if \<not> week_starts_Mon
              then ((first_weekday + 1) mod 7, (day_of_week + 1) mod 7)
              else (first_weekday, day_of_week));
          week_0_length = (7 - first_weekday) mod 7
      in if week_of_year = 0 then 1 + day_of_week - first_weekday
         else (let days_to_week = week_0_length + 7 * (week_of_year - 1)
               in 1 + days_to_week + day_of_week))"

text \<open>
  \<open>time.strptime('%(year)s %(week)s 1' % values, '%Y %W %w')\<close> as a function of the two
  numbers put into the text. The directive \<open>%Y\<close> matches exactly four digits, so the text
  of a year below 1000 does not match and ValueError is raised; \<open>%W\<close> matches a number
  from 0 to 53; the text for \<open>%w\<close> is 1, Monday, which is weekday 0 inside strptime. A
  day of the year that is not positive belongs to the year before.
\<close>

definition strptime_Y_W_w :: "int \<Rightarrow> int \<Rightarrow> error + struct_time" where
  "strptime_Y_W_w y week =
     (if y < 1000 \<or> 9999 < y \<or> week < 0 \<or> 53 < week then Inl ValueError
      else
        let weekday = 0;
            julian = calc_julian_from_U_or_W y week weekday True;
            (y, julian) =
               (if julian \<le> 0
                then (y - 1, julian + (if isleap (y - 1) then 366 else 365))
                else (y, julian));
            n = (julian - 1) + ymd2ord y 1 1
        in if 0 < n \<and> n \<le> MAXORDINAL
           then (let datetime_result = fromordinal n
                 in Inr \<lparr>tm_year = year datetime_result, tm_mon = month datetime_result,
                         tm_mday = day datetime_result, tm_hour = 0, tm_min = 0, tm_sec = 0\<rparr>)
           else Inl ValueError)"

text \<open>
  \<open>datetime.datetime.fromtimestamp(time.mktime(result))\<close>. \<open>mktime\<close> reads the struct as
  local time and \<open>fromtimestamp\<close> gives local time back, so the composition returns the
  wall-clock fields it was given; this takes a local zone in which that wall-clock time
  exists once (no daylight-saving switch at that moment) and a 64-bit \<open>time_t\<close>. In
  Python 2 \<open>mktime\<close> raises ValueError for a year before 1900.
\<close>

definition fromtimestamp_mktime :: "struct_time \<Rightarrow> error + datetime" where
  "fromtimestamp_mktime t =
     (if tm_year t < 1900 then Inl ValueError
      else datetime_new (tm_year t) (tm_mon t) (tm_mday t) (tm_hour t) (tm_min t) (tm_sec t) 0 None)"

subsection \<open>Strings\<close>

text \<open>
  A \<open>str\<close> of Python 2 is a list of bytes. \<open>str.split()\<close> splits at runs of the
  whitespace characters tab, newline, vertical tab, form feed, carriage return and
  space, and yields no empty piece; \<open>str.split(sep)\<close> splits at every \<open>sep\<close> and yields
  at least one piece; \<open>find\<close> and \<open>rfind\<close> give the position of a character or -1.
\<close>

definition is_space :: "char \<Rightarrow> bool" where
  "is_space c \<longleftrightarrow> (let n = (of_char c :: nat) in (9 \<le> n \<and> n \<le> 13) \<or> n = 32)"

definition isdigit :: "char \<Rightarrow> bool" where
  "isdigit c \<longleftrightarrow> (let n = (of_char c :: nat) in 48 \<le> n \<and> n \<le> 57)"

definition upper_char :: "char \<Rightarrow> char" where
  "upper_char c =
     (let n = (of_char c :: nat) in if 97 \<le> n \<and> n \<le> 122 then char_of (n - 32) else c)"

definition lower_char :: "char \<Rightarrow> char" where
  "lower_char c =
     (let n = (of_char c :: nat) in if 65 \<le> n \<and> n \<le> 90 then char_of (n + 32) else c)"

definition str_upper :: "string \<Rightarrow> string" where
  "str_upper s = map upper_char s"

definition str_lower :: "string \<Rightarrow> string" where
  "str_lower s = map lower_char s"

fun split_ws :: "string \<Rightarrow> string \<Rightarrow> string list" where
  "split_ws cur [] = (if cur = [] then [] else [cur])"
| "split_ws cur (c # cs) =
     (if is_space c then (if cur = [] then split_ws [] cs else cur # split_ws [] cs)
      else split_ws (cur @ [c]) cs)"

definition str_split_ws :: "string \<Rightarrow> string list" where
  "str_split_ws s = split_ws [] s"

fun split_sep :: "char \<Rightarrow> string \<Rightarrow> string \<Rightarrow> string list" where
  "split_sep sep cur [] = [cur]"
| "split_sep sep cur (c # cs) =
     (if c = sep then cur # split_sep sep [] cs else split_sep sep (cur @ [c]) cs)"

definition str_split :: "char \<Rightarrow> string \<Rightarrow> string list" where
  "str_split sep s = split_sep sep [] s"

fun find_from :: "char \<Rightarrow> int \<Rightarrow> string \<Rightarrow> int" where
  "find_from c i [] = - 1"
| "find_from c i (x # xs) = (if x = c then i else find_from c (i + 1) xs)"

definition str_find :: "char \<Rightarrow> string \<Rightarrow> int" where
  "str_find c s = find_from c 0 s"

fun rfind_from :: "char \<Rightarrow> int \<Rightarrow> int \<Rightarrow> string \<Rightarrow> int" where
  "rfind_from c i found [] = found"
| "rfind_from c i found (x # xs) = rfind_from c (i + 1) (if x = c then i else found) xs"

definition str_rfind :: "char \<Rightarrow> string \<Rightarrow> int" where
  "str_rfind c s = rfind_from c 0 (- 1) s"

definition endswith :: "string \<Rightarrow> char \<Rightarrow> bool" where
  "endswith s c \<longleftrightarrow> s \<noteq> [] \<and> last s = c"

text \<open>
  \<open>int(s)\<close> for a text without surrounding whitespace: an optional sign and at least one
  decimal digit, otherwise ValueError, here \<open>None\<close>.
\<close>

definition digit_value :: "char \<Rightarrow> int" where
  "digit_value c = int (of_char c) - 48"

fun digits_value :: "int \<Rightarrow> string \<Rightarrow> int" where
  "digits_value acc [] = acc"
| "digits_value acc (c # cs) = digits_value (acc * 10 + digit_value c) cs"

definition int_unsigned :: "string \<Rightarrow> int option" where
  "int_unsigned s = (if s \<noteq> [] \<and> list_all isdigit s then Some (digits_value 0 s) else None)"

fun py_int :: "string \<Rightarrow> int option" where
  "py_int [] = None"
| "py_int (c # cs) =
     (if c = CHR ''+'' then int_unsigned cs
      else if c = CHR ''-'' then map_option uminus (int_unsigned cs)
      else int_unsigned (c # cs))"

text \<open>
  \<open>s[-1]\<close> and \<open>s[0]\<close> raise IndexError on the empty string.
\<close>

definition last_char :: "string \<Rightarrow> error + char" where
  "last_char s = (if s = [] then Inl IndexError else Inr (last s))"

definition first_char :: "string \<Rightarrow> error + char" where
  "first_char s = (if s = [] then Inl IndexError else Inr (hd s))"

subsection \<open>email.utils.parsedate_tz\<close>

definition monthnames :: "string list" where
  "monthnames = [''jan'', ''feb'', ''mar'', ''apr'', ''may'', ''jun'', ''jul'',
                 ''aug'', ''sep'', ''oct'', ''nov'', ''dec'',
                 ''january'', ''february'', ''march'', ''april'', ''may'', ''june'', ''july'',
                 ''august'', ''september'', ''october'', ''november'', ''december'']"

definition daynames :: "string list" where
  "daynames = [''mon'', ''tue'', ''wed'', ''thu'', ''fri'', ''sat'', ''sun'']"

definition timezones :: "(string \<times> int) list" where
  "timezones = [(''UT'', 0), (''UTC'', 0), (''GMT'', 0), (''Z'', 0),
                (''AST'', - 400), (''ADT'', - 300),
                (''EST'', - 500), (''EDT'', - 400),
                (''CST'', - 600), (''CDT'', - 500),
                (''MST'', - 700), (''MDT'', - 600),
                (''PST'', - 800), (''PDT'', - 700)]"

text \<open>\<open>list.index\<close> for an element that is in the list.\<close>

fun list_index :: "'a \<Rightarrow> 'a list \<Rightarrow> int" where
  "list_index x [] = 0"
| "list_index x (y # ys) = (if x = y then 0 else 1 + list_index x ys)"

text \<open>
  The entries of the tuple that \<open>parsedate_tz\<close> returns which are read afterwards; the
  three entries between the seconds and the offset are the constants 0, 1 and -1.
\<close>

record parsed_date =
  p_yy :: int
  p_mm :: int
  p_dd :: int
  p_thh :: int
  p_tmm :: int
  p_tss :: int
  p_tzoffset :: "int option"

text \<open>
  \<open>parsedate_tz\<close> as in Python 2.7, in four steps: the words of the text and the removal
  of a day name; the five fields day, month, year, time and zone; the numbers; the
  offset. It returns \<open>None\<close> for a text it does not accept, and an index into an empty
  string or an empty list of words raises IndexError.
\<close>

definition parsedate_words :: "string \<Rightarrow> error + string list" where
  "parsedate_words text =
     (let data = str_split_ws text
      in if data = [] then Inl IndexError
         else
           let data =
                 (if endswith (data ! 0) CHR '','' \<or> str_lower (data ! 0) \<in> set daynames
                  then tl data
                  else (let i = str_rfind CHR '','' (data ! 0)
                        in if i \<ge> 0 then data[0 := drop (nat (i + 1)) (data ! 0)] else data));
               data =
                 (if length data = 3
                  then (let stuff = str_split CHR ''-'' (data ! 0)
                        in if length stuff = 3 then stuff @ tl data else data)
                  else data);
               data =
                 (if length data = 4
                  then (let s = data ! 3;
                            i = str_find CHR ''+'' s
                        in if i > 0 then take 3 data @ [take (nat i) s, drop (nat (i + 1)) s]
                           else data @ [[]])
                  else data)
           in Inr data)"

definition parsedate_offset :: "string \<Rightarrow> int option" where
  "parsedate_offset tz =
     (let tz = str_upper tz;
          tzoffset = (case map_of timezones tz of
                        Some v \<Rightarrow> Some v
                      | None \<Rightarrow> py_int tz)
      in case tzoffset of
           None \<Rightarrow> None
         | Some v \<Rightarrow>
             if v \<noteq> 0
             then (let (tzsign, v) = (if v < 0 then (- 1, - v) else (1, v))
                   in Some (tzsign * ((v div 100) * 3600 + (v mod 100) * 60)))
             else Some v)"

definition parsedate_numbers ::
  "string \<Rightarrow> int \<Rightarrow> string \<Rightarrow> string list \<Rightarrow> string \<Rightarrow> parsed_date option" where
  "parsedate_numbers yy mm dd tm tz =
     (case (if length tm = 2 then Some (tm ! 0, tm ! 1, ''0'')
            else if length tm = 3 then Some (tm ! 0, tm ! 1, tm ! 2)
            else None) of
        None \<Rightarrow> None
      | Some (thh, tmm, tss) \<Rightarrow>
          (case (py_int yy, py_int dd, py_int thh, py_int tmm, py_int tss) of
             (Some yy, Some dd, Some thh, Some tmm, Some tss) \<Rightarrow>
               let yy = (if yy < 100 then (if yy > 68 then yy + 1900 else yy + 2000) else yy)
               in Some \<lparr>p_yy = yy, p_mm = mm, p_dd = dd, p_thh = thh, p_tmm = tmm,
                        p_tss = tss, p_tzoffset = parsedate_offset tz\<rparr>
           | _ \<Rightarrow> None))"

definition parsedate_fields ::
  "string \<Rightarrow> string \<Rightarrow> string \<Rightarrow> string \<Rightarrow> string \<Rightarrow> error + parsed_date option" where
  "parsedate_fields dd mm yy tm tz =
     (let mm = str_lower mm;
          (dd, mm) = (if mm \<notin> set monthnames then (mm, str_lower dd) else (dd, mm))
      in if mm \<notin> set monthnames then Inr None
         else
           let mm = list_index mm monthnames + 1;
               mm = (if mm > 12 then mm - 12 else mm)
           in bind (last_char dd) (\<lambda>c.
              let dd = (if c = CHR '','' then butlast dd else dd);
                  i = str_find CHR '':'' yy;
                  (yy, tm) = (if i > 0 then (tm, yy) else (yy, tm))
              in bind (last_char yy) (\<lambda>c.
                 let yy = (if c = CHR '','' then butlast yy else yy)
                 in bind (first_char yy) (\<lambda>c.
                    let (yy, tz) = (if \<not> isdigit c then (tz, yy) else (yy, tz))
                    in bind (last_char tm) (\<lambda>c.
                       let tm = (if c = CHR '','' then butlast tm else tm);
                           tm = str_split CHR '':'' tm
                       in Inr (parsedate_numbers yy mm dd tm tz))))))"

definition parsedate_tz :: "string \<Rightarrow> error + parsed_date option" where
  "parsedate_tz text =
     bind (parsedate_words text) (\<lambda>data.
       if length data < 5 then Inr None
       else (let data = take 5 data
             in parsedate_fields (data ! 0) (data ! 1) (data ! 2) (data ! 3) (data ! 4)))"

section \<open>The functions of date_utils\<close>

subsection \<open>Day, week and month boundaries\<close>

text \<open>
  \<open>get_min_time\<close> and \<open>get_max_time\<close> are called with a date or with a datetime. Since
  \<open>datetime.datetime\<close> is a subclass of \<open>datetime.date\<close>, \<open>isinstance(date, datetime.date)\<close>
  holds for both.
\<close>

datatype date_arg = ADate date | ADatetime datetime

fun isinstance_date :: "date_arg \<Rightarrow> bool" where
  "isinstance_date (ADate d) = True"
| "isinstance_date (ADatetime dt) = True"

fun arg_year :: "date_arg \<Rightarrow> int" where
  "arg_year (ADate d) = year d"
| "arg_year (ADatetime dt) = year dt"

fun arg_month :: "date_arg \<Rightarrow> int" where
  "arg_month (ADate d) = month d"
| "arg_month (ADatetime dt) = month dt"

fun arg_day :: "date_arg \<Rightarrow> int" where
  "arg_day (ADate d) = day d"
| "arg_day (ADatetime dt) = day dt"

text \<open>
  What \<open>date.replace(hour=..., ...)\<close> is applied to when the \<open>isinstance\<close> test fails: a
  plain date has no such keywords (TypeError).
\<close>

fun arg_datetime :: "date_arg \<Rightarrow> error + datetime" where
  "arg_datetime (ADate d) = Inl TypeError"
| "arg_datetime (ADatetime dt) = Inr dt"

definition get_min_time :: "date_arg \<Rightarrow> error + datetime" where
  "get_min_time date =
     bind (if isinstance_date date
           then datetime_new (arg_year date) (arg_month date) (arg_day date) 0 0 0 0 None
           else arg_datetime date) (\<lambda>date.
     let min_date = date\<lparr>hour := 0, minute := 0, second := 0, microsecond := 0\<rparr>
     in Inr min_date)"

definition get_max_time :: "date_arg \<Rightarrow> error + datetime" where
  "get_max_time date =
     bind (if isinstance_date date
           then datetime_new (arg_year date) (arg_month date) (arg_day date) 0 0 0 0 None
           else arg_datetime date) (\<lambda>date.
     let max_date = date\<lparr>hour := 23, minute := 59, second := 59, microsecond := 999999\<rparr>
     in Inr max_date)"

definition get_date_boundaries :: "date_arg \<Rightarrow> error + (datetime \<times> datetime)" where
  "get_date_boundaries date =
     bind (get_min_time date) (\<lambda>min_date.
     bind (get_max_time date) (\<lambda>max_date.
     Inr (min_date, max_date)))"

definition get_week_boundaries :: "'a date_scheme \<Rightarrow> error + (datetime \<times> datetime)" where
  "get_week_boundaries date =
     (let date_values = isocalendar date;
          week_number = fst (snd date_values)
      in bind (strptime_Y_W_w (year date) (week_number - 1)) (\<lambda>result.
         bind (fromtimestamp_mktime result) (\<lambda>date_min.
         bind (datetime_add date_min (timedelta_new 6 0 0)) (\<lambda>date_max.
         bind (get_max_time (ADatetime date_max)) (\<lambda>date_max.
         Inr (date_min, date_max))))))"

definition get_month_boundaries :: "'a date_scheme \<Rightarrow> error + (datetime \<times> datetime)" where
  "get_month_boundaries date =
     (let y = year date; m = month date
      in bind (monthrange y m) (\<lambda>(_, max_day).
         bind (datetime_new y m 1 0 0 0 0 None) (\<lambda>date_min.
         bind (get_min_time (ADatetime date_min)) (\<lambda>date_min.
         bind (datetime_new y m max_day 0 0 0 0 None) (\<lambda>date_max.
         bind (get_max_time (ADatetime date_max)) (\<lambda>date_max.
         Inr (date_min, date_max)))))))"

subsection \<open>Enumerations over a range\<close>

text \<open>The loop \<open>for value in values: dates.append(date_end - timedelta(days=value))\<close>.\<close>

fun dates_loop :: "date \<Rightarrow> int list \<Rightarrow> date list \<Rightarrow> error + date list" where
  "dates_loop date_end [] dates = Inr dates"
| "dates_loop date_end (v # values) dates =
     bind (date_sub_days date_end v) (\<lambda>date. dates_loop date_end values (dates @ [date]))"

definition get_dates_between_range :: "date \<Rightarrow> date \<Rightarrow> bool \<Rightarrow> error + date list" where
  "get_dates_between_range date_start date_end reverse =
     (let difference_days = date_diff_days date_end date_start;
          dates = [];
          values = (if reverse then py_range 0 difference_days
                    else rev (py_range 1 (difference_days + 1)))
      in bind (dates_loop date_end values dates) (\<lambda>dates.
         if reverse then Inr (dates @ [date_start]) else Inr (dates @ [date_end])))"

text \<open>The loop \<open>for index in range(0, diff + 1): result.append(min_year + index)\<close>.\<close>

fun years_loop :: "int \<Rightarrow> int list \<Rightarrow> int list \<Rightarrow> int list" where
  "years_loop min_year [] result = result"
| "years_loop min_year (index # indices) result =
     years_loop min_year indices (result @ [min_year + index])"

definition get_years_between_range :: "'a date_scheme \<Rightarrow> 'b date_scheme \<Rightarrow> int list" where
  "get_years_between_range date_start date_end =
     (let min_year = year date_start;
          max_year = year date_end;
          diff = max_year - min_year;
          result = []
      in years_loop min_year (py_range 0 (diff + 1)) result)"

text \<open>
  The loop over \<open>range(1, week_count)\<close> that appends \<open>min_date + timedelta(days=week_num * 7)\<close>.
\<close>

fun weeks_loop :: "date \<Rightarrow> int list \<Rightarrow> date list \<Rightarrow> error + date list" where
  "weeks_loop min_date [] dates = Inr dates"
| "weeks_loop min_date (week_num # week_nums) dates =
     (let ds = week_num * 7
      in bind (date_add_days min_date ds) (\<lambda>date.
         weeks_loop min_date week_nums (dates @ [date])))"

text \<open>\<open>difference_days / 7\<close> divides two integers: floor division in Python 2.\<close>

definition get_week_start_dates_between_range :: "date \<Rightarrow> date \<Rightarrow> error + date list" where
  "get_week_start_dates_between_range date_start date_end =
     bind (get_week_boundaries date_start) (\<lambda>(min_date, _).
       let min_date = datetime_date min_date;
           difference_days = date_diff_days date_end min_date;
           week_count = difference_days div 7;
           dates = []
       in if week_count = 0 then Inr dates
          else weeks_loop min_date (py_range 1 week_count) (dates @ [min_date]))"

text \<open>
  The loop \<open>for index, date in enumerate(dates)\<close> that keeps the dates with day 1 whose
  index is below \<open>count - 1\<close>.
\<close>

fun month_start_loop :: "(nat \<times> date) list \<Rightarrow> int \<Rightarrow> date list \<Rightarrow> date list" where
  "month_start_loop [] count result = result"
| "month_start_loop ((index, date) # rest) count result =
     month_start_loop rest count
       (if day date = 1 \<and> int index < count - 1 then result @ [date] else result)"

definition get_month_start_dates_between_range :: "date \<Rightarrow> date \<Rightarrow> error + date list" where
  "get_month_start_dates_between_range date_start date_end =
     bind (get_month_boundaries date_start) (\<lambda>(min_date, _).
       let min_date = datetime_date min_date
       in bind (get_dates_between_range min_date date_end False) (\<lambda>dates.
          let count = int (length dates);
              result = []
          in if month date_start = month date_end \<and> year date_start = year date_end
             then Inr []
             else Inr (month_start_loop (enumerate 0 dates) count result)))"

subsection \<open>Time zones\<close>

text \<open>
  The zone database of pytz is outside the package. A zone of the database is taken as its
  name (\<open>tz.zone\<close>), the transition info that the object returned by \<open>pytz.timezone\<close>
  carries itself (the first of the zone, or the only one of a zone with a fixed offset),
  and the function that gives, for a UTC time in seconds since 0001-01-01 00:00:00, the
  transition info in effect at that time. The database maps a name to its zone, or to
  nothing when the name is unknown. \<open>pytz.timezone\<close> returns its UTC object for any
  spelling of \<open>UTC\<close> without consulting the database.
\<close>

record zone =
  zone_id :: string
  zone_info :: transition_info
  zone_at :: "int \<Rightarrow> transition_info"

datatype timezone = UTC | Zone zone

type_synonym zone_database = "string \<Rightarrow> zone option"

definition pytz_timezone :: "zone_database \<Rightarrow> string \<Rightarrow> error + timezone" where
  "pytz_timezone db zone_name =
     (if str_upper zone_name = ''UTC'' then Inr UTC
      else case db zone_name of
             None \<Rightarrow> Inl UnknownTimeZoneError
           | Some z \<Rightarrow> Inr (Zone z))"

text \<open>The tzinfo object that a value returned by \<open>pytz.timezone\<close> is.\<close>

fun tz_object :: "timezone \<Rightarrow> tzinfo" where
  "tz_object UTC = PytzUTC"
| "tz_object (Zone z) = PytzInfo (zone_id z) (zone_info z)"

text \<open>The wall-clock time of a datetime in seconds since 0001-01-01 00:00:00.\<close>

definition datetime_seconds :: "datetime \<Rightarrow> int" where
  "datetime_seconds dt =
     (toordinal dt - 1) * 86400 + hour dt * 3600 + minute dt * 60 + second dt"

text \<open>
  The offset that \<open>astimezone\<close> reads from the tzinfo of its argument: in Python 2 it has
  to be a whole number of minutes strictly between -24 and 24 hours (ValueError).
\<close>

definition call_utcoffset :: "tzinfo \<Rightarrow> error + int" where
  "call_utcoffset t =
     bind (utcoffset t) (\<lambda>offset.
       if offset mod 60 \<noteq> 0 then Inl ValueError
       else if offset \<le> - 86400 \<or> 86400 \<le> offset then Inl ValueError
       else Inr offset)"

text \<open>
  \<open>fromutc\<close>, which \<open>astimezone\<close> calls with the UTC time carrying the target object. The
  UTC object adds its offset of zero and stays attached. A zone of the database adds the
  offset in effect at the UTC time and attaches its object for that transition info.
\<close>

fun fromutc :: "timezone \<Rightarrow> datetime \<Rightarrow> error + datetime" where
  "fromutc UTC dt = datetime_add dt (timedelta_new 0 0 0)"
| "fromutc (Zone z) dt =
     (let dt = dt\<lparr>tzinfo := None\<rparr>;
          info = zone_at z (datetime_seconds dt)
      in bind (datetime_add dt (timedelta_new 0 (fst info) 0)) (\<lambda>local.
         Inr (local\<lparr>tzinfo := Some (PytzInfo (zone_id z) info)\<rparr>)))"

text \<open>
  \<open>datetime.astimezone(tz)\<close>: a naive datetime raises ValueError; a datetime whose tzinfo
  is the object \<open>tz\<close> itself is returned as it is; otherwise the offset of the datetime is
  subtracted, which gives the UTC time, \<open>tz\<close> is attached and its \<open>fromutc\<close> does the rest.
\<close>

definition astimezone :: "datetime \<Rightarrow> timezone \<Rightarrow> error + datetime" where
  "astimezone self tz =
     (case tzinfo self of
        None \<Rightarrow> Inl ValueError
      | Some t \<Rightarrow>
          if t = tz_object tz then Inr self
          else
            bind (call_utcoffset t) (\<lambda>offset.
            bind (datetime_sub self (timedelta_new 0 offset 0)) (\<lambda>utc.
            fromutc tz (utc\<lparr>tzinfo := Some (tz_object tz)\<rparr>))))"

text \<open>
  \<open>parsed[0:6]\<close> of \<open>None\<close>, the result of \<open>parsedate_tz\<close> for a text it does not
  accept, raises TypeError. \<open>date.replace(tzinfo=...)\<close> does not look at the offset.
\<close>

definition convert_date_str_to_date :: "string \<Rightarrow> error + datetime" where
  "convert_date_str_to_date date_str =
     bind (parsedate_tz date_str) (\<lambda>parsed.
       case parsed of
         None \<Rightarrow> Inl TypeError
       | Some p \<Rightarrow>
           bind (datetime_new (p_yy p) (p_mm p) (p_dd p) (p_thh p) (p_tmm p) (p_tss p) 0 None)
             (\<lambda>date.
               let offset = p_tzoffset p;
                   tzinfo = TZInfo offset;
                   date = date\<lparr>tzinfo := Some tzinfo\<rparr>
               in Inr date))"

definition convert_date_to_local_date :: "zone_database \<Rightarrow> datetime \<Rightarrow> string \<Rightarrow> error + datetime" where
  "convert_date_to_local_date db date timezone =
     bind (pytz_timezone db timezone) (\<lambda>timezone.
       let result = astimezone date timezone
       in result)"

definition convert_date_str_to_utc :: "zone_database \<Rightarrow> string \<Rightarrow> error + datetime" where
  "convert_date_str_to_utc db date_str =
     bind (convert_date_str_to_date date_str) (\<lambda>date.
     bind (convert_date_to_local_date db date ''UTC'') (\<lambda>date.
     Inr date))"

section \<open>Definitions that follow the specification's words\<close>

text \<open>
  The Gregorian rule as the specification states it: a year is a leap year when it is
  divisible by 4, except century years, which are leap years only when divisible by 400;
  a month has 28 days (February), 29 (February of a leap year), 30 or 31.
\<close>

definition gregorian_leap_year :: "int \<Rightarrow> bool" where
  "gregorian_leap_year y \<longleftrightarrow> (if y mod 100 = 0 then y mod 400 = 0 else y mod 4 = 0)"

definition gregorian_last_day :: "int \<Rightarrow> int \<Rightarrow> int" where
  "gregorian_last_day y m =
     (if m = 2 then (if gregorian_leap_year y then 29 else 28)
      else if m = 4 \<or> m = 6 \<or> m = 9 \<or> m = 11 then 30
      else 31)"

text \<open>
  The absolute point in time of a datetime, as the specification speaks of it: its place
  on the UTC timeline, here in microseconds since 0001-01-01 00:00:00 UTC, is the
  wall-clock time less the offset.
\<close>

definition wall_clock_microseconds :: "datetime \<Rightarrow> int" where
  "wall_clock_microseconds dt =
     (toordinal dt * 86400 + hour dt * 3600 + minute dt * 60 + second dt) * 1000000
       + microsecond dt - 86400000000"

definition utc_microseconds :: "datetime \<Rightarrow> int \<Rightarrow> int" where
  "utc_microseconds dt offset = wall_clock_microseconds dt - offset * 1000000"

text \<open>The times that a datetime can hold: from 0001-01-01 to the end of 9999-12-31.\<close>

definition in_datetime_range :: "int \<Rightarrow> bool" where
  "in_datetime_range us \<longleftrightarrow> 0 \<le> us \<and> us < MAXORDINAL * 86400000000"

text \<open>
  The offset applicable to a zone at a UTC time (in seconds since 0001-01-01 00:00:00), and
  the pytz object that stands for the zone at that time.
\<close>

fun zone_offset_at :: "timezone \<Rightarrow> int \<Rightarrow> int" where
  "zone_offset_at UTC t = 0"
| "zone_offset_at (Zone z) t = fst (zone_at z t)"

fun zone_object_at :: "timezone \<Rightarrow> int \<Rightarrow> tzinfo" where
  "zone_object_at UTC t = PytzUTC"
| "zone_object_at (Zone z) t = PytzInfo (zone_id z) (zone_at z t)"

lemma div_step:
  fixes y k :: int
  assumes "0 < k"
  shows "y div k = (y - 1) div k + (if y mod k = 0 then 1 else 0)"
proof (cases "y mod k = 0")
  case True
  have "y = k * (y div k) + y mod k" by simp
  with True have "y = k * (y div k)" by simp
  then have "y - 1 = k * (y div k - 1) + (k - 1)"
    by (simp add: algebra_simps)
  then have "(y - 1) div k = y div k - 1"
    using assms by (intro int_div_pos_eq[where r = "k - 1"]) auto
  with True show ?thesis by simp
next
  case False
  have "0 \<le> y mod k" "y mod k < k"
    using assms by simp_all
  with False have r: "0 \<le> y mod k - 1" "y mod k - 1 < k" by linarith+
  have "y - 1 = k * (y div k) + (y mod k - 1)"
    by (simp add: algebra_simps)
  then have "(y - 1) div k = y div k"
    using r by (intro int_div_pos_eq[where r = "y mod k - 1"]) auto
  with False show ?thesis by simp
qed

lemma dby_decomp:
  fixes a b c d :: int
  assumes "0 \<le> b" "b \<le> 3" "0 \<le> c" "c \<le> 24" "0 \<le> d" "d \<le> 3"
  shows "days_before_year (400 * a + 100 * b + 4 * c + d + 1) = 146097 * a + 36524 * b + 1461 * c + 365 * d"
proof -
  let ?y = "400 * a + 100 * b + 4 * c + d"
  have d4: "?y div 4 = 100 * a + 25 * b + c"
    using assms by (intro int_div_pos_eq[where r = d]) auto
  have d100: "?y div 100 = 4 * a + b"
    using assms by (intro int_div_pos_eq[where r = "4 * c + d"]) auto
  have d400: "?y div 400 = a"
    using assms by (intro int_div_pos_eq[where r = "100 * b + 4 * c + d"]) auto
  show ?thesis
    unfolding days_before_year_def Let_def using d4 d100 d400 by simp
qed

lemma dby_step: "days_before_year (y + 1) = days_before_year y + (if is_leap y then 366 else 365)"
proof -
  have m1: "y mod 400 = 0 \<Longrightarrow> y mod 100 = 0"
    using dvd_trans[of 100 400 y] by (simp add: mod_eq_0_iff_dvd)
  have m2: "y mod 100 = 0 \<Longrightarrow> y mod 4 = 0"
    using dvd_trans[of 4 100 y] by (simp add: mod_eq_0_iff_dvd)
  have e4: "y div 4 = (y - 1) div 4 + (if y mod 4 = 0 then 1 else 0)"
    by (rule div_step) simp
  have e100: "y div 100 = (y - 1) div 100 + (if y mod 100 = 0 then 1 else 0)"
    by (rule div_step) simp
  have e400: "y div 400 = (y - 1) div 400 + (if y mod 400 = 0 then 1 else 0)"
    by (rule div_step) simp
  have "days_before_year (y + 1) = y * 365 + y div 4 - y div 100 + y div 400"
    by (simp add: days_before_year_def)
  also have "\<dots> = days_before_year y + 365 + (if y mod 4 = 0 then 1 else 0)
       - (if y mod 100 = 0 then 1 else 0) + (if y mod 400 = 0 then 1 else 0)"
    unfolding days_before_year_def Let_def
    by (subst e4, subst e100, subst e400) (simp add: algebra_simps)
  also have "\<dots> = days_before_year y + (if is_leap y then 366 else 365)"
    using m1 m2 by (cases "y mod 4 = 0"; cases "y mod 100 = 0"; cases "y mod 400 = 0")
      (simp_all add: is_leap_def)
  finally show ?thesis .
qed

lemma dby_mono: "y1 \<le> y2 \<Longrightarrow> days_before_year y1 \<le> days_before_year y2"
proof (induction y2 rule: int_ge_induct)
  case base
  show ?case by simp
next
  case (step i)
  have "days_before_year i \<le> days_before_year (i + 1)"
    by (simp add: dby_step)
  with step show ?case by linarith
qed

lemma dby_10000: "days_before_year 10000 = 3652059"
  by (simp add: days_before_year_def)

lemma dby_0: "days_before_year 0 = - 366"
  by (simp add: days_before_year_def)

lemma dby_year_bound: "days_before_year y \<le> 3652058 \<Longrightarrow> y \<le> 9999"
  using dby_mono[of 10000 y] dby_10000 by linarith

lemma dby_year_lower: "0 \<le> days_before_year y \<Longrightarrow> 1 \<le> y"
  using dby_mono[of y 0] dby_0 by linarith

lemma leap_decomp:
  fixes a b c d :: int
  assumes "0 \<le> b" "b \<le> 3" "0 \<le> c" "c \<le> 24" "0 \<le> d" "d \<le> 3"
  shows "is_leap (400 * a + 100 * b + 4 * c + d + 1) \<longleftrightarrow> (d = 3 \<and> (c \<noteq> 24 \<or> b = 3))"
proof -
  let ?Y = "400 * a + 100 * b + 4 * c + d + 1"
  have Y: "days_before_year ?Y = 146097 * a + 36524 * b + 1461 * c + 365 * d"
    using assms by (rule dby_decomp)
  have k: "is_leap ?Y \<longleftrightarrow> days_before_year (?Y + 1) = days_before_year ?Y + 366"
    using dby_step[of ?Y] by (simp split: if_splits)
  consider (d) "d \<le> 2" | (c) "d = 3" "c \<le> 23" | (b) "d = 3" "c = 24" "b \<le> 2"
    | (a) "d = 3" "c = 24" "b = 3"
    using assms by linarith
  then show ?thesis
  proof cases
    case d
    have "days_before_year (400 * a + 100 * b + 4 * c + (d + 1) + 1)
          = 146097 * a + 36524 * b + 1461 * c + 365 * (d + 1)"
      using assms d by (intro dby_decomp) auto
    then have "days_before_year (?Y + 1) = days_before_year ?Y + 365"
      using Y by (simp add: algebra_simps)
    with k d show ?thesis by simp
  next
    case c
    have "days_before_year (400 * a + 100 * b + 4 * (c + 1) + 0 + 1)
          = 146097 * a + 36524 * b + 1461 * (c + 1) + 365 * 0"
      using assms c by (intro dby_decomp) auto
    then have "days_before_year (?Y + 1) = days_before_year ?Y + 366"
      using Y c by (simp add: algebra_simps)
    with k c show ?thesis by simp
  next
    case b
    have "days_before_year (400 * a + 100 * (b + 1) + 4 * 0 + 0 + 1)
          = 146097 * a + 36524 * (b + 1) + 1461 * 0 + 365 * 0"
      using assms b by (intro dby_decomp) auto
    then have "days_before_year (?Y + 1) = days_before_year ?Y + 365"
      using Y b by (simp add: algebra_simps)
    with k b show ?thesis by simp
  next
    case a
    have "days_before_year (400 * (a + 1) + 100 * 0 + 4 * 0 + 0 + 1)
          = 146097 * (a + 1) + 36524 * 0 + 1461 * 0 + 365 * 0"
      by (intro dby_decomp) auto
    then have "days_before_year (?Y + 1) = days_before_year ?Y + 366"
      using Y a by (simp add: algebra_simps)
    with k a show ?thesis by simp
  qed
qed

lemma month_day_ok_common: "list_all (month_day_ok False) [0..364]"
  by code_simp

lemma month_day_ok_leap: "list_all (month_day_ok True) [0..365]"
  by code_simp

lemma month_day_ok:
  assumes "0 \<le> n" "n < (if leapyear then 366 else 365)"
  shows "month_day_ok leapyear n"
proof (cases leapyear)
  case True
  with assms have "n \<in> set [0..365]" by simp
  with month_day_ok_leap True show ?thesis by (simp add: list_all_iff del: upto.simps)
next
  case False
  with assms have "n \<in> set [0..364]" by simp
  with month_day_ok_common False show ?thesis by (simp add: list_all_iff del: upto.simps)
qed

lemma ord2ymd_eq:
  "ord2ymd n =
    (let n0 = n - 1;
         a = n0 div 146097; r1 = n0 mod 146097;
         b = r1 div 36524; r2 = r1 mod 36524;
         c = r2 div 1461; r3 = r2 mod 1461;
         d = r3 div 365; e = r3 mod 365;
         y = a * 400 + 1 + (b * 100 + c * 4 + d)
     in if d = 4 \<or> b = 4 then (y - 1, 12, 31)
        else (y, month_day_of (d = 3 \<and> (c \<noteq> 24 \<or> b = 3)) e))"
  by (simp only: ord2ymd_def month_day_of_def Let_def DI400Y_def DI100Y_def DI4Y_def case_prod_beta)

lemma divmod_digits:
  fixes n0 :: int
  assumes "a = n0 div 146097" and "r1 = n0 mod 146097"
    and "b = r1 div 36524" and "r2 = r1 mod 36524"
    and "c = r2 div 1461" and "r3 = r2 mod 1461"
    and "d = r3 div 365" and "e = r3 mod 365"
  shows "n0 = 146097 * a + 36524 * b + 1461 * c + 365 * d + e"
    and "0 \<le> b" "b \<le> 4" "0 \<le> c" "c \<le> 24" "0 \<le> d" "d \<le> 4" "0 \<le> e" "e < 365"
    and "b = 4 \<Longrightarrow> c = 0 \<and> d = 0 \<and> e = 0"
    and "d = 4 \<Longrightarrow> e = 0 \<and> c \<le> 23"
proof -
  have 1: "n0 = 146097 * a + r1" "0 \<le> r1" "r1 < 146097"
    unfolding assms by simp_all
  have 2: "r1 = 36524 * b + r2" "0 \<le> r2" "r2 < 36524"
    unfolding assms by simp_all
  have 3: "r2 = 1461 * c + r3" "0 \<le> r3" "r3 < 1461"
    unfolding assms by simp_all
  have 4: "r3 = 365 * d + e" "0 \<le> e" "e < 365"
    unfolding assms by simp_all
  show "n0 = 146097 * a + 36524 * b + 1461 * c + 365 * d + e"
    using 1 2 3 4 by linarith
  show "0 \<le> b" using 1 2 by linarith
  show "b \<le> 4" using 1 2 by linarith
  show "0 \<le> c" using 2 3 by linarith
  show "c \<le> 24" using 2 3 by linarith
  show "0 \<le> d" using 3 4 by linarith
  show "d \<le> 4" using 3 4 by linarith
  show "0 \<le> e" "e < 365" using 4 by simp_all
  show "c = 0 \<and> d = 0 \<and> e = 0" if "b = 4"
  proof -
    from that 1 2 have r2: "r2 = 0" by linarith
    have "c = 0" using r2 assms(5) by simp
    moreover have "r3 = 0" using r2 assms(6) by simp
    then have "d = 0" "e = 0" using assms(7,8) by simp_all
    ultimately show ?thesis by simp
  qed
  show "e = 0 \<and> c \<le> 23" if "d = 4"
    using that 2 3 4 by linarith
qed

lemma dbm_december: "days_before_month y 12 + 31 = (if is_leap y then 366 else 365)"
  by (simp add: days_before_month_def DAYS_BEFORE_MONTH_def)

lemma dim_december: "days_in_month y 12 = 31"
  by (simp add: days_in_month_def DAYS_IN_MONTH_def)

lemma ord2ymd_correct:
  assumes "ord2ymd n = (y, m, dd)"
  shows "ymd2ord y m dd = n \<and> 1 \<le> m \<and> m \<le> 12 \<and> 1 \<le> dd \<and> dd \<le> days_in_month y m"
proof -
  define n0 where "n0 = n - 1"
  define a where "a = n0 div 146097"
  define r1 where "r1 = n0 mod 146097"
  define b where "b = r1 div 36524"
  define r2 where "r2 = r1 mod 36524"
  define c where "c = r2 div 1461"
  define r3 where "r3 = r2 mod 1461"
  define d where "d = r3 div 365"
  define e where "e = r3 mod 365"
  define Y where "Y = a * 400 + 1 + (b * 100 + c * 4 + d)"
  define lp where "lp \<longleftrightarrow> d = 3 \<and> (c \<noteq> 24 \<or> b = 3)"
  note dg = divmod_digits[OF a_def r1_def b_def r2_def c_def r3_def d_def e_def]
  have eq: "ord2ymd n = (if d = 4 \<or> b = 4 then (Y - 1, 12, 31) else (Y, month_day_of lp e))"
    unfolding lp_def Y_def e_def d_def r3_def c_def r2_def b_def r1_def a_def n0_def
    by (simp only: ord2ymd_eq Let_def)
  have n: "n = 146097 * a + 36524 * b + 1461 * c + 365 * d + e + 1"
    using dg(1) n0_def by linarith
  consider (A) "b = 4" | (B) "d = 4" "b \<le> 3" | (C) "b \<le> 3" "d \<le> 3"
    using dg(3,7) by linarith
  then show ?thesis
  proof cases
    case A
    with dg(10) have z: "c = 0" "d = 0" "e = 0" by simp_all
    from eq assms A z have r: "y = 400 * a + 400" "m = 12" "dd = 31"
      by (simp_all add: Y_def)
    have yy: "y = 400 * a + 100 * 3 + 4 * 24 + 3 + 1" using r by simp
    have "days_before_year y = 146097 * a + 36524 * 3 + 1461 * 24 + 365 * 3"
      unfolding yy by (intro dby_decomp) simp_all
    then have dby: "days_before_year y = 146097 * a + 145731" by simp
    have lp: "is_leap y"
      unfolding yy by (subst leap_decomp) simp_all
    have "ymd2ord y 12 31 = n"
      unfolding ymd2ord_def using dby lp dbm_december[of y] n A z by simp
    with r show ?thesis by (simp add: dim_december)
  next
    case B
    with dg(11) have z: "e = 0" "c \<le> 23" by simp_all
    from eq assms B have r: "y = 400 * a + 100 * b + 4 * c + 3 + 1" "m = 12" "dd = 31"
      by (simp_all add: Y_def)
    have dby: "days_before_year y = 146097 * a + 36524 * b + 1461 * c + 365 * 3"
      unfolding r using dg B z by (intro dby_decomp) simp_all
    have lp: "is_leap y"
      unfolding r using dg B z by (subst leap_decomp) simp_all
    have "ymd2ord y 12 31 = n"
      unfolding ymd2ord_def using dby lp dbm_december[of y] n B z by simp
    with r show ?thesis by (simp add: dim_december)
  next
    case C
    with dg have ne: "d \<noteq> 4" "b \<noteq> 4" by simp_all
    from eq assms ne have r: "y = Y" "month_day_of lp e = (m, dd)" by simp_all
    have Y: "Y = 400 * a + 100 * b + 4 * c + d + 1" by (simp add: Y_def)
    have dby: "days_before_year Y = 146097 * a + 36524 * b + 1461 * c + 365 * d"
      unfolding Y using dg C by (intro dby_decomp) simp_all
    have leap: "is_leap Y \<longleftrightarrow> lp"
      unfolding Y lp_def using dg C by (intro leap_decomp) simp_all
    have "month_day_ok lp e"
      using dg(8,9) by (intro month_day_ok) simp_all
    with r(2) have md: "1 \<le> m" "m \<le> 12" "1 \<le> dd"
      "dd \<le> (if m = 2 \<and> lp then 29 else DAYS_IN_MONTH ! nat m)"
      "DAYS_BEFORE_MONTH ! nat m + (if m > 2 \<and> lp then 1 else 0) + dd = e + 1"
      by (simp_all add: month_day_ok_def)
    have "ymd2ord Y m dd = n"
      unfolding ymd2ord_def days_before_month_def leap using dby md(5) n by linarith
    moreover have "dd \<le> days_in_month Y m"
      unfolding days_in_month_def leap using md(4) .
    ultimately show ?thesis using r(1) md by simp
  qed
qed

lemma month_cases:
  fixes m :: int
  assumes "1 \<le> m" "m \<le> 12"
  obtains "m = 1" | "m = 2" | "m = 3" | "m = 4" | "m = 5" | "m = 6"
    | "m = 7" | "m = 8" | "m = 9" | "m = 10" | "m = 11" | "m = 12"
proof -
  have "m = 1 \<or> m = 2 \<or> m = 3 \<or> m = 4 \<or> m = 5 \<or> m = 6
      \<or> m = 7 \<or> m = 8 \<or> m = 9 \<or> m = 10 \<or> m = 11 \<or> m = 12"
    using assms by presburger
  then show thesis using that by blast
qed

lemma dbm_next:
  assumes "1 \<le> m" "m \<le> 11"
  shows "days_before_month y (m + 1) = days_before_month y m + days_in_month y m"
proof -
  from assms have "1 \<le> m" "m \<le> 12" by simp_all
  then show ?thesis
    using assms(2)
    by (cases m rule: month_cases)
      (simp_all add: days_before_month_def days_in_month_def DAYS_BEFORE_MONTH_def DAYS_IN_MONTH_def)
qed

lemma dim_bounds:
  assumes "1 \<le> m" "m \<le> 12"
  shows "28 \<le> days_in_month y m" "days_in_month y m \<le> 31"
  using assms
  by (cases m rule: month_cases; simp add: days_in_month_def DAYS_IN_MONTH_def)+

lemma dbm_january: "days_before_month y 1 = 0"
  by (simp add: days_before_month_def DAYS_BEFORE_MONTH_def)

lemma dbm_mono:
  assumes "1 \<le> m" "m < m'" "m' \<le> 12"
  shows "days_before_month y m + days_in_month y m \<le> days_before_month y m'"
proof -
  from assms(2) have "m + 1 \<le> m'" by simp
  then show ?thesis using assms(1,3)
  proof (induction m' rule: int_ge_induct)
    case base
    then show ?case by (simp add: dbm_next)
  next
    case (step i)
    then have "days_before_month y m + days_in_month y m \<le> days_before_month y i" by simp
    moreover have "days_before_month y (i + 1) = days_before_month y i + days_in_month y i"
      using step by (intro dbm_next) simp_all
    moreover have "28 \<le> days_in_month y i" using step by (intro dim_bounds) simp_all
    ultimately show ?case by linarith
  qed
qed

lemma dbm_nonneg:
  assumes "1 \<le> m" "m \<le> 12"
  shows "0 \<le> days_before_month y m"
proof (cases "m = 1")
  case True
  then show ?thesis by (simp add: dbm_january)
next
  case False
  with assms have "days_before_month y 1 + days_in_month y 1 \<le> days_before_month y m"
    by (intro dbm_mono) simp_all
  moreover have "28 \<le> days_in_month y 1" by (intro dim_bounds) simp_all
  ultimately show ?thesis by (simp add: dbm_january)
qed

lemma dbm_year_end:
  assumes "1 \<le> m" "m \<le> 12"
  shows "days_before_month y m + days_in_month y m \<le> (if is_leap y then 366 else 365)"
proof (cases "m = 12")
  case True
  then show ?thesis using dbm_december[of y] by (simp add: dim_december)
next
  case False
  with assms have "days_before_month y m + days_in_month y m \<le> days_before_month y 12"
    by (intro dbm_mono) simp_all
  then show ?thesis using dbm_december[of y] by (simp split: if_splits)
qed

lemma dby_1: "days_before_year 1 = 0"
  by (simp add: days_before_year_def)

lemma ymd2ord_less_next_year:
  assumes "1 \<le> m" "m \<le> 12" "d \<le> days_in_month y m"
  shows "ymd2ord y m d \<le> days_before_year (y + 1)"
  using dbm_year_end[OF assms(1,2), of y] assms(3) dby_step[of y]
  by (simp add: ymd2ord_def split: if_splits)

lemma ymd2ord_greater_year:
  assumes "1 \<le> m" "m \<le> 12" "1 \<le> d"
  shows "days_before_year y < ymd2ord y m d"
  using dbm_nonneg[OF assms(1,2), of y] assms(3) by (simp add: ymd2ord_def)

lemma ymd2ord_strict_mono:
  assumes a: "1 \<le> m" "m \<le> 12" "1 \<le> d" "d \<le> days_in_month y m"
    and b: "1 \<le> m'" "m' \<le> 12" "1 \<le> d'" "d' \<le> days_in_month y' m'"
    and less: "y < y' \<or> (y = y' \<and> (m < m' \<or> (m = m' \<and> d < d')))"
  shows "ymd2ord y m d < ymd2ord y' m' d'"
proof -
  consider (year) "y < y'" | (month) "y = y'" "m < m'" | (day) "y = y'" "m = m'" "d < d'"
    using less by blast
  then show ?thesis
  proof cases
    case year
    have "ymd2ord y m d \<le> days_before_year (y + 1)"
      using a by (intro ymd2ord_less_next_year) simp_all
    also have "\<dots> \<le> days_before_year y'"
      using year by (intro dby_mono) simp
    also have "\<dots> < ymd2ord y' m' d'"
      using b by (intro ymd2ord_greater_year) simp_all
    finally show ?thesis .
  next
    case month
    have "days_before_month y m + days_in_month y m \<le> days_before_month y m'"
      using a month b by (intro dbm_mono) simp_all
    with a b month show ?thesis by (simp add: ymd2ord_def)
  next
    case day
    then show ?thesis by (simp add: ymd2ord_def)
  qed
qed

lemma toordinal_less_iff:
  assumes "valid_date a" "valid_date b"
  shows "toordinal a < toordinal b \<longleftrightarrow> date_less a b"
proof
  assume "date_less a b"
  then show "toordinal a < toordinal b"
    using assms unfolding toordinal_def valid_date_def date_less_def
    by (intro ymd2ord_strict_mono) simp_all
next
  assume lt: "toordinal a < toordinal b"
  show "date_less a b"
  proof (rule ccontr)
    assume n: "\<not> date_less a b"
    then consider "date_less b a" | "year a = year b \<and> month a = month b \<and> day a = day b"
      unfolding date_less_def by linarith
    then show False
    proof cases
      case 1
      then have "toordinal b < toordinal a"
        using assms unfolding toordinal_def valid_date_def date_less_def
        by (intro ymd2ord_strict_mono) simp_all
      with lt show False by simp
    next
      case 2
      then have "toordinal a = toordinal b" by (simp add: toordinal_def)
      with lt show False by simp
    qed
  qed
qed

lemma toordinal_range:
  assumes "valid_date d"
  shows "1 \<le> toordinal d" "toordinal d \<le> MAXORDINAL"
proof -
  from assms have v: "1 \<le> year d" "year d \<le> 9999" "1 \<le> month d" "month d \<le> 12"
    "1 \<le> day d" "day d \<le> days_in_month (year d) (month d)"
    by (simp_all add: valid_date_def MINYEAR_def MAXYEAR_def)
  have "days_before_year 1 \<le> days_before_year (year d)"
    using v by (intro dby_mono) simp
  moreover have "days_before_year (year d) < toordinal d"
    unfolding toordinal_def using v by (intro ymd2ord_greater_year) simp_all
  ultimately show "1 \<le> toordinal d" by (simp add: dby_1)
  have "toordinal d \<le> days_before_year (year d + 1)"
    unfolding toordinal_def using v by (intro ymd2ord_less_next_year) simp_all
  also have "\<dots> \<le> days_before_year 10000"
    using v by (intro dby_mono) simp
  finally show "toordinal d \<le> MAXORDINAL" by (simp add: dby_10000 MAXORDINAL_def)
qed

lemma toordinal_fromordinal: "toordinal (fromordinal n) = n"
proof -
  obtain y m d where e: "ord2ymd n = (y, m, d)" by (cases "ord2ymd n") auto
  from ord2ymd_correct[OF e] show ?thesis
    by (simp add: toordinal_def fromordinal_def e)
qed

lemma valid_fromordinal:
  assumes "1 \<le> n" "n \<le> MAXORDINAL"
  shows "valid_date (fromordinal n)"
proof -
  obtain y m d where e: "ord2ymd n = (y, m, d)" by (cases "ord2ymd n") auto
  note c = ord2ymd_correct[OF e]
  have "days_before_year y < ymd2ord y m d"
    using c by (intro ymd2ord_greater_year) simp_all
  with c assms have "days_before_year y \<le> 3652058" by (simp add: MAXORDINAL_def)
  then have up: "y \<le> 9999" by (rule dby_year_bound)
  have "ymd2ord y m d \<le> days_before_year (y + 1)"
    using c by (intro ymd2ord_less_next_year) simp_all
  with c assms have "days_before_year 1 < days_before_year (y + 1)" by (simp add: dby_1)
  then have lo: "1 \<le> y" using dby_mono[of "y + 1" 1] by linarith
  show ?thesis using c up lo
    by (simp add: valid_date_def fromordinal_def e MINYEAR_def MAXYEAR_def)
qed

lemma fromordinal_toordinal:
  assumes "valid_date d"
  shows "fromordinal (toordinal d) = \<lparr>year = year d, month = month d, day = day d\<rparr>"
proof -
  let ?d' = "fromordinal (toordinal d)"
  have v': "valid_date ?d'"
    using toordinal_range[OF assms] by (intro valid_fromordinal)
  have eq: "toordinal ?d' = toordinal d" by (rule toordinal_fromordinal)
  have "\<not> date_less ?d' d" "\<not> date_less d ?d'"
    using toordinal_less_iff[OF v' assms] toordinal_less_iff[OF assms v'] eq by simp_all
  then have "year ?d' = year d \<and> month ?d' = month d \<and> day ?d' = day d"
    unfolding date_less_def by linarith
  then show ?thesis by (cases ?d') simp
qed

lemma bind_Inr [simp]: "bind (Inr x) f = f x"
  by (simp add: bind_def)

lemma bind_Inl [simp]: "bind (Inl e) f = Inl e"
  by (simp add: bind_def)

lemma date_eta: "\<lparr>year = year d, month = month d, day = day d\<rparr> = (d :: date)"
  by simp

lemma fromordinal_toordinal_date:
  fixes d :: date
  assumes "valid_date d"
  shows "fromordinal (toordinal d) = d"
  using fromordinal_toordinal[OF assms] by simp

lemma map_upto_flip:
  fixes a b c :: int
  shows "map (\<lambda>v. f (c - v)) [a..b] = rev (map f [c - b..c - a])"
proof (induction a b rule: upto.induct)
  case (1 i j)
  show ?case
  proof (cases "i \<le> j")
    case True
    then have l: "[i..j] = i # [i + 1..j]" by (simp add: upto_rec1)
    from True have r: "[c - j..c - i] = [c - j..c - i - 1] @ [c - i]"
      by (simp add: upto_rec2)
    have "c - (i + 1) = c - i - 1" by simp
    with 1 True have "map (\<lambda>v. f (c - v)) [i + 1..j] = rev (map f [c - j..c - i - 1])"
      by simp
    then show ?thesis unfolding l r by simp
  next
    case False
    then show ?thesis by simp
  qed
qed

lemma dates_loop_ok:
  assumes "\<forall>v\<in>set vs. 0 < toordinal e - v \<and> toordinal e - v \<le> MAXORDINAL"
  shows "dates_loop e vs acc = Inr (acc @ map (\<lambda>v. fromordinal (toordinal e - v)) vs)"
  using assms
proof (induction vs arbitrary: acc)
  case Nil
  show ?case by simp
next
  case (Cons v vs)
  then show ?case
    by (simp add: date_sub_days_def date_add_days_def)
qed

lemma dates_between_forward:
  assumes v: "valid_date date_start" "valid_date date_end"
    and le: "toordinal date_start \<le> toordinal date_end"
  shows "get_dates_between_range date_start date_end False
         = Inr (map fromordinal [toordinal date_start..toordinal date_end])"
proof -
  let ?s = "toordinal date_start" and ?e = "toordinal date_end"
  note rs = toordinal_range[OF v(1)] and re = toordinal_range[OF v(2)]
  have ok: "\<forall>x\<in>set (rev [1..?e - ?s]). 0 < ?e - x \<and> ?e - x \<le> MAXORDINAL"
    using rs re by auto
  have "map (\<lambda>x. fromordinal (?e - x)) (rev [1..?e - ?s])
        = rev (map (\<lambda>x. fromordinal (?e - x)) [1..?e - ?s])"
    by (simp add: rev_map)
  also have "\<dots> = rev (rev (map fromordinal [?e - (?e - ?s)..?e - 1]))"
    by (simp only: map_upto_flip)
  also have "\<dots> = map fromordinal [?s..?e - 1]" by simp
  finally have "map (\<lambda>x. fromordinal (?e - x)) (rev [1..?e - ?s]) = map fromordinal [?s..?e - 1]" .
  moreover have "[?s..?e] = [?s..?e - 1] @ [?e]"
    using le by (simp add: upto_rec2)
  ultimately show ?thesis
    unfolding get_dates_between_range_def Let_def date_diff_days_def py_range_def
    using dates_loop_ok[OF ok, of "[]"] fromordinal_toordinal_date[OF v(2)]
    by simp
qed

lemma dates_between_backward:
  assumes v: "valid_date date_start" "valid_date date_end"
    and le: "toordinal date_start \<le> toordinal date_end"
  shows "get_dates_between_range date_start date_end True
         = Inr (rev (map fromordinal [toordinal date_start..toordinal date_end]))"
proof -
  let ?s = "toordinal date_start" and ?e = "toordinal date_end"
  note rs = toordinal_range[OF v(1)] and re = toordinal_range[OF v(2)]
  have ok: "\<forall>x\<in>set [0..?e - ?s - 1]. 0 < ?e - x \<and> ?e - x \<le> MAXORDINAL"
    using rs re by auto
  have "map (\<lambda>x. fromordinal (?e - x)) [0..?e - ?s - 1] = rev (map fromordinal [?s + 1..?e])"
    using map_upto_flip[of fromordinal ?e 0 "?e - ?s - 1"] by simp
  moreover have "[?s..?e] = ?s # [?s + 1..?e]"
    using le by (simp add: upto_rec1)
  ultimately show ?thesis
    unfolding get_dates_between_range_def Let_def date_diff_days_def py_range_def
    using dates_loop_ok[OF ok, of "[]"] fromordinal_toordinal_date[OF v(1)]
    by simp
qed

lemma toordinal_le_iff:
  assumes "valid_date a" "valid_date b"
  shows "toordinal a \<le> toordinal b \<longleftrightarrow> date_le a b"
proof -
  have "toordinal a = toordinal b \<longleftrightarrow> (year a = year b \<and> month a = month b \<and> day a = day b)"
  proof
    assume e: "toordinal a = toordinal b"
    then have "\<not> date_less a b" "\<not> date_less b a"
      using toordinal_less_iff[OF assms] toordinal_less_iff[OF assms(2,1)] by simp_all
    then show "year a = year b \<and> month a = month b \<and> day a = day b"
      unfolding date_less_def by linarith
  qed (simp add: toordinal_def)
  then show ?thesis
    using toordinal_less_iff[OF assms] unfolding date_le_def by linarith
qed

lemma sorted_fromordinal:
  assumes "1 \<le> a" "b \<le> MAXORDINAL"
  shows "sorted_wrt date_less (map fromordinal [a..b])"
proof -
  have "sorted_wrt (\<lambda>x y. date_less (fromordinal x) (fromordinal y)) [a..b]"
  proof (rule sorted_wrt_mono_rel[of _ "(<)"])
    fix x y assume "x \<in> set [a..b]" "y \<in> set [a..b]" "x < y"
    then have "valid_date (fromordinal x)" "valid_date (fromordinal y)"
      using assms by (auto intro!: valid_fromordinal)
    from toordinal_less_iff[OF this] \<open>x < y\<close>
    show "date_less (fromordinal x) (fromordinal y)"
      by (simp add: toordinal_fromordinal)
  next
    show "sorted_wrt (<) [a..b]" by (simp add: sorted_wrt_upto)
  qed
  then show ?thesis by (simp add: sorted_wrt_map)
qed

lemma years_loop_eq: "years_loop min_year indices result = result @ map (\<lambda>index. min_year + index) indices"
  by (induction indices arbitrary: result) simp_all

lemma dates_between_inverted:
  assumes "toordinal date_end < toordinal date_start"
  shows "get_dates_between_range date_start date_end False = Inr [date_end]"
    and "get_dates_between_range date_start date_end True = Inr [date_start]"
  using assms
  by (simp_all add: get_dates_between_range_def date_diff_days_def py_range_def)

text \<open>
  C4. For valid dates with start not after end, \<open>get_dates_between_range\<close> returns a list
  that begins with start and ends with end, has \<open>(end - start).days + 1\<close> entries, is
  strictly ascending by date, and with \<open>reverse=True\<close> the result is that list reversed,
  which is strictly descending.
\<close>

theorem dates_between_range_inclusive:
  assumes "valid_date date_start" and "valid_date date_end"
    and "date_le date_start date_end"
  shows "\<exists>dates. get_dates_between_range date_start date_end False = Inr dates
           \<and> get_dates_between_range date_start date_end True = Inr (rev dates)
           \<and> int (length dates) = date_diff_days date_end date_start + 1
           \<and> dates \<noteq> [] \<and> hd dates = date_start \<and> last dates = date_end
           \<and> sorted_wrt date_less dates
           \<and> sorted_wrt (\<lambda>a b. date_less b a) (rev dates)"
proof -
  let ?s = "toordinal date_start" and ?e = "toordinal date_end"
  let ?ds = "map fromordinal [?s..?e]"
  have le: "?s \<le> ?e"
    using assms by (simp add: toordinal_le_iff)
  note rs = toordinal_range[OF assms(1)] and re = toordinal_range[OF assms(2)]
  have f: "get_dates_between_range date_start date_end False = Inr ?ds"
    using assms(1,2) le by (rule dates_between_forward)
  have b: "get_dates_between_range date_start date_end True = Inr (rev ?ds)"
    using assms(1,2) le by (rule dates_between_backward)
  have len: "int (length ?ds) = date_diff_days date_end date_start + 1"
    using le by (simp add: date_diff_days_def)
  have ne: "?ds \<noteq> []" using le by simp
  have "[?s..?e] = ?s # [?s + 1..?e]" using le by (simp add: upto_rec1)
  then have "hd ?ds = fromordinal ?s" by simp
  then have h: "hd ?ds = date_start"
    by (simp add: fromordinal_toordinal_date[OF assms(1)])
  have "[?s..?e] = [?s..?e - 1] @ [?e]" using le by (simp add: upto_rec2)
  then have "last ?ds = fromordinal ?e" by simp
  then have l: "last ?ds = date_end"
    by (simp add: fromordinal_toordinal_date[OF assms(2)])
  have asc: "sorted_wrt date_less ?ds"
    using rs re by (intro sorted_fromordinal) simp_all
  then have desc: "sorted_wrt (\<lambda>a b. date_less b a) (rev ?ds)"
    by (simp only: sorted_wrt_rev)
  from f b len ne h l asc desc show ?thesis by blast
qed

theorem dates_between_range_inclusive_witness:
  "valid_date \<lparr>year = 2013, month = 9, day = 2\<rparr> \<and> valid_date \<lparr>year = 2013, month = 9, day = 5\<rparr>
   \<and> date_le \<lparr>year = 2013, month = 9, day = 2\<rparr> \<lparr>year = 2013, month = 9, day = 5\<rparr>
   \<and> (\<exists>dates. get_dates_between_range \<lparr>year = 2013, month = 9, day = 2\<rparr>
                  \<lparr>year = 2013, month = 9, day = 5\<rparr> False = Inr dates
           \<and> get_dates_between_range \<lparr>year = 2013, month = 9, day = 2\<rparr>
                  \<lparr>year = 2013, month = 9, day = 5\<rparr> True = Inr (rev dates)
           \<and> int (length dates)
               = date_diff_days \<lparr>year = 2013, month = 9, day = 5\<rparr> \<lparr>year = 2013, month = 9, day = 2\<rparr> + 1
           \<and> dates \<noteq> [] \<and> hd dates = \<lparr>year = 2013, month = 9, day = 2\<rparr>
           \<and> last dates = \<lparr>year = 2013, month = 9, day = 5\<rparr>
           \<and> sorted_wrt date_less dates
           \<and> sorted_wrt (\<lambda>a b. date_less b a) (rev dates))"
proof -
  have 1: "valid_date \<lparr>year = 2013, month = 9, day = 2\<rparr>"
    by (simp add: valid_date_def MINYEAR_def MAXYEAR_def days_in_month_def DAYS_IN_MONTH_def)
  have 2: "valid_date \<lparr>year = 2013, month = 9, day = 5\<rparr>"
    by (simp add: valid_date_def MINYEAR_def MAXYEAR_def days_in_month_def DAYS_IN_MONTH_def)
  have 3: "date_le \<lparr>year = 2013, month = 9, day = 2\<rparr> \<lparr>year = 2013, month = 9, day = 5\<rparr>"
    by (simp add: date_le_def date_less_def)
  from dates_between_range_inclusive[OF 1 2 3] 1 2 3 show ?thesis by blast
qed

text \<open>
  C10. For valid dates with end earlier than start the enumerations return normally:
  \<open>get_dates_between_range\<close> gives the one-element list \<open>[end]\<close>, with \<open>reverse=True\<close>
  the list \<open>[start]\<close>, and \<open>get_years_between_range\<close> gives the empty list when the year of
  end is below the year of start.
\<close>

theorem inverted_range_returns:
  assumes "valid_date date_start" and "valid_date date_end"
    and "date_less date_end date_start"
  shows "get_dates_between_range date_start date_end False = Inr [date_end]
       \<and> get_dates_between_range date_start date_end True = Inr [date_start]
       \<and> (year date_end < year date_start \<longrightarrow> get_years_between_range date_start date_end = [])"
proof -
  have "toordinal date_end < toordinal date_start"
    using assms by (simp add: toordinal_less_iff)
  then have "get_dates_between_range date_start date_end False = Inr [date_end]"
    "get_dates_between_range date_start date_end True = Inr [date_start]"
    by (rule dates_between_inverted)+
  moreover have "get_years_between_range date_start date_end = []"
    if "year date_end < year date_start"
    using that by (simp add: get_years_between_range_def py_range_def)
  ultimately show ?thesis by blast
qed

theorem inverted_range_returns_witness:
  "valid_date \<lparr>year = 2013, month = 9, day = 8\<rparr> \<and> valid_date \<lparr>year = 2012, month = 9, day = 2\<rparr>
   \<and> date_less \<lparr>year = 2012, month = 9, day = 2\<rparr> \<lparr>year = 2013, month = 9, day = 8\<rparr>
   \<and> year \<lparr>year = 2012, month = 9, day = 2\<rparr> < year \<lparr>year = 2013, month = 9, day = 8\<rparr>
   \<and> get_dates_between_range \<lparr>year = 2013, month = 9, day = 8\<rparr> \<lparr>year = 2012, month = 9, day = 2\<rparr> False
       = Inr [\<lparr>year = 2012, month = 9, day = 2\<rparr>]
   \<and> get_dates_between_range \<lparr>year = 2013, month = 9, day = 8\<rparr> \<lparr>year = 2012, month = 9, day = 2\<rparr> True
       = Inr [\<lparr>year = 2013, month = 9, day = 8\<rparr>]
   \<and> get_years_between_range \<lparr>year = 2013, month = 9, day = 8\<rparr> \<lparr>year = 2012, month = 9, day = 2\<rparr> = []"
proof -
  have 1: "valid_date \<lparr>year = 2013, month = 9, day = 8\<rparr>"
    by (simp add: valid_date_def MINYEAR_def MAXYEAR_def days_in_month_def DAYS_IN_MONTH_def)
  have 2: "valid_date \<lparr>year = 2012, month = 9, day = 2\<rparr>"
    by (simp add: valid_date_def MINYEAR_def MAXYEAR_def days_in_month_def DAYS_IN_MONTH_def)
  have 3: "date_less \<lparr>year = 2012, month = 9, day = 2\<rparr> \<lparr>year = 2013, month = 9, day = 8\<rparr>"
    by (simp add: date_less_def)
  from inverted_range_returns[OF 1 2 3] 1 2 3 show ?thesis by simp
qed

text \<open>
  C1 as stated fails: with end earlier than start, also by year, both enumerations return
  a list and raise nothing.
\<close>

theorem inverted_range_error_counterexample:
  "get_dates_between_range \<lparr>year = 2013, month = 9, day = 8\<rparr> \<lparr>year = 2010, month = 9, day = 2\<rparr> False
     = Inr [\<lparr>year = 2010, month = 9, day = 2\<rparr>]
   \<and> get_years_between_range \<lparr>year = 2013, month = 9, day = 8\<rparr> \<lparr>year = 2010, month = 9, day = 2\<rparr> = []"
  by code_simp

text \<open>
  C1, amended. For valid dates with end earlier than start no enumeration fails:
  \<open>get_dates_between_range\<close> returns a list of one date, in either direction, and
  \<open>get_years_between_range\<close> returns a list, which has \<open>end.year - start.year + 1\<close> years
  when that number is positive and is empty otherwise.
\<close>

theorem inverted_range_no_error:
  assumes "valid_date date_start" and "valid_date date_end"
    and "date_less date_end date_start"
  shows "(\<exists>d. get_dates_between_range date_start date_end reverse = Inr [d])
       \<and> length (get_years_between_range date_start date_end)
           = nat (year date_end - year date_start + 1)"
proof -
  have "toordinal date_end < toordinal date_start"
    using assms by (simp add: toordinal_less_iff)
  from dates_between_inverted[OF this]
  have "\<exists>d. get_dates_between_range date_start date_end reverse = Inr [d]"
    by (cases reverse) simp_all
  moreover have "length (get_years_between_range date_start date_end)
                 = nat (year date_end - year date_start + 1)"
    by (simp add: get_years_between_range_def py_range_def years_loop_eq Let_def)
  ultimately show ?thesis by blast
qed

theorem inverted_range_no_error_witness:
  "valid_date \<lparr>year = 2013, month = 9, day = 8\<rparr> \<and> valid_date \<lparr>year = 2013, month = 9, day = 2\<rparr>
   \<and> date_less \<lparr>year = 2013, month = 9, day = 2\<rparr> \<lparr>year = 2013, month = 9, day = 8\<rparr>
   \<and> (\<exists>d. get_dates_between_range \<lparr>year = 2013, month = 9, day = 8\<rparr>
              \<lparr>year = 2013, month = 9, day = 2\<rparr> True = Inr [d])
   \<and> length (get_years_between_range \<lparr>year = 2013, month = 9, day = 8\<rparr>
                \<lparr>year = 2013, month = 9, day = 2\<rparr>) = 1"
proof -
  have 1: "valid_date \<lparr>year = 2013, month = 9, day = 8\<rparr>"
    by (simp add: valid_date_def MINYEAR_def MAXYEAR_def days_in_month_def DAYS_IN_MONTH_def)
  have 2: "valid_date \<lparr>year = 2013, month = 9, day = 2\<rparr>"
    by (simp add: valid_date_def MINYEAR_def MAXYEAR_def days_in_month_def DAYS_IN_MONTH_def)
  have 3: "date_less \<lparr>year = 2013, month = 9, day = 2\<rparr> \<lparr>year = 2013, month = 9, day = 8\<rparr>"
    by (simp add: date_less_def)
  from inverted_range_no_error[OF 1 2 3, of True] 1 2 3 show ?thesis by simp
qed

lemma isleap_eq: "isleap y = is_leap y"
  by (simp add: isleap_def is_leap_def)

lemma mdays_eq:
  assumes "1 \<le> m" "m \<le> 12"
  shows "mdays ! nat m + (if m = 2 \<and> isleap y then 1 else 0) = days_in_month y m"
  using assms
  by (cases m rule: month_cases)
    (simp_all add: mdays_def days_in_month_def DAYS_IN_MONTH_def isleap_eq)

lemma gregorian_leap_year_eq: "gregorian_leap_year y = is_leap y"
proof -
  have "y mod 100 = 0 \<Longrightarrow> y mod 4 = 0"
    using dvd_trans[of 4 100 y] by (simp add: mod_eq_0_iff_dvd)
  moreover have "y mod 400 = 0 \<Longrightarrow> y mod 100 = 0"
    using dvd_trans[of 100 400 y] by (simp add: mod_eq_0_iff_dvd)
  ultimately show ?thesis
    unfolding gregorian_leap_year_def is_leap_def by auto
qed

lemma gregorian_last_day_eq:
  assumes "1 \<le> m" "m \<le> 12"
  shows "gregorian_last_day y m = days_in_month y m"
  using assms
  by (cases m rule: month_cases)
    (simp_all add: gregorian_last_day_def days_in_month_def DAYS_IN_MONTH_def gregorian_leap_year_eq)

lemma valid_first_of_month:
  assumes "valid_date d"
  shows "valid_date \<lparr>year = year d, month = month d, day = 1\<rparr>"
  using assms dim_bounds(1)[of "month d" "year d"] by (simp add: valid_date_def)

lemma valid_last_of_month:
  assumes "valid_date d"
  shows "valid_date \<lparr>year = year d, month = month d, day = days_in_month (year d) (month d)\<rparr>"
  using assms dim_bounds(1)[of "month d" "year d"] by (simp add: valid_date_def)

lemma valid_date_fits_c_int:
  assumes "valid_date \<lparr>year = y, month = m, day = d\<rparr>"
  shows "fits_c_int y" "fits_c_int m" "fits_c_int d"
  using assms dim_bounds(2)[of m y]
  by (simp_all add: valid_date_def fits_c_int_def MINYEAR_def MAXYEAR_def)

lemma datetime_new_valid:
  assumes "valid_datetime \<lparr>year = y, month = m, day = d, hour = hh, minute = mm, second = ss,
                           microsecond = us, tzinfo = tz\<rparr>"
  shows "datetime_new y m d hh mm ss us tz
         = Inr \<lparr>year = y, month = m, day = d, hour = hh, minute = mm, second = ss,
                microsecond = us, tzinfo = tz\<rparr>"
proof -
  from assms have v: "valid_date \<lparr>year = y, month = m, day = d\<rparr>"
    and r: "0 \<le> hh" "hh < 24" "0 \<le> mm" "mm < 60" "0 \<le> ss" "ss < 60" "0 \<le> us" "us < 1000000"
    by (simp_all add: valid_datetime_def valid_date_def)
  have "fits_c_int hh" "fits_c_int mm" "fits_c_int ss" "fits_c_int us"
    using r by (simp_all add: fits_c_int_def)
  with valid_date_fits_c_int[OF v] assms show ?thesis
    by (simp add: datetime_new_def)
qed

lemma datetime_new_midnight:
  assumes "valid_date \<lparr>year = y, month = m, day = d\<rparr>"
  shows "datetime_new y m d 0 0 0 0 None
         = Inr \<lparr>year = y, month = m, day = d, hour = 0, minute = 0, second = 0,
                microsecond = 0, tzinfo = None\<rparr>"
  using assms by (intro datetime_new_valid) (simp add: valid_datetime_def valid_date_def)

lemma get_min_time_eq:
  assumes "valid_date \<lparr>year = arg_year x, month = arg_month x, day = arg_day x\<rparr>"
  shows "get_min_time x
         = Inr \<lparr>year = arg_year x, month = arg_month x, day = arg_day x, hour = 0, minute = 0,
                second = 0, microsecond = 0, tzinfo = None\<rparr>"
  using datetime_new_midnight[OF assms]
  by (cases x) (simp_all add: get_min_time_def)

lemma get_max_time_eq:
  assumes "valid_date \<lparr>year = arg_year x, month = arg_month x, day = arg_day x\<rparr>"
  shows "get_max_time x
         = Inr \<lparr>year = arg_year x, month = arg_month x, day = arg_day x, hour = 23, minute = 59,
                second = 59, microsecond = 999999, tzinfo = None\<rparr>"
  using datetime_new_midnight[OF assms]
  by (cases x) (simp_all add: get_max_time_def)

lemma monthrange_eq:
  assumes "valid_date d"
  shows "monthrange (year d) (month d)
         = Inr (weekday \<lparr>year = year d, month = month d, day = 1\<rparr>,
                days_in_month (year d) (month d))"
proof -
  from assms have m: "1 \<le> month d" "month d \<le> 12" by (simp_all add: valid_date_def)
  have "date_new (year d) (month d) 1 = Inr \<lparr>year = year d, month = month d, day = 1\<rparr>"
    using valid_first_of_month[OF assms] by (simp add: date_new_def valid_date_def)
  then show ?thesis
    using m mdays_eq[OF m, of "year d"] by (simp add: monthrange_def)
qed

lemma get_month_boundaries_eq:
  assumes "valid_date d"
  shows "get_month_boundaries d
         = Inr (\<lparr>year = year d, month = month d, day = 1, hour = 0, minute = 0, second = 0,
                  microsecond = 0, tzinfo = None\<rparr>,
                \<lparr>year = year d, month = month d, day = days_in_month (year d) (month d),
                  hour = 23, minute = 59, second = 59, microsecond = 999999, tzinfo = None\<rparr>)"
proof -
  note f = valid_first_of_month[OF assms] and l = valid_last_of_month[OF assms]
  show ?thesis
    unfolding get_month_boundaries_def Let_def
    by (simp add: monthrange_eq[OF assms] datetime_new_midnight[OF f] datetime_new_midnight[OF l]
        get_min_time_eq f get_max_time_eq l)
qed

text \<open>
  C8. For a valid date \<open>d\<close>, \<open>get_month_boundaries\<close> returns the pair whose start is
  day 1 of the year and month of \<open>d\<close> at 00:00:00.000000 without tzinfo, which is what
  \<open>get_min_time\<close> gives for that day, and whose end is the day of the same year and month
  whose number is the Gregorian last day of that month, as the specification words the
  rule, at 23:59:59.999999 without tzinfo.
\<close>

theorem month_boundaries_gregorian:
  assumes "valid_date d"
  shows "get_month_boundaries d
         = Inr (\<lparr>year = year d, month = month d, day = 1, hour = 0, minute = 0, second = 0,
                  microsecond = 0, tzinfo = None\<rparr>,
                \<lparr>year = year d, month = month d, day = gregorian_last_day (year d) (month d),
                  hour = 23, minute = 59, second = 59, microsecond = 999999, tzinfo = None\<rparr>)
         \<and> get_min_time (ADate \<lparr>year = year d, month = month d, day = 1\<rparr>)
           = Inr \<lparr>year = year d, month = month d, day = 1, hour = 0, minute = 0, second = 0,
                  microsecond = 0, tzinfo = None\<rparr>"
proof -
  from assms have m: "1 \<le> month d" "month d \<le> 12" by (simp_all add: valid_date_def)
  show ?thesis
    using valid_first_of_month[OF assms]
    by (simp add: get_month_boundaries_eq[OF assms] get_min_time_eq gregorian_last_day_eq[OF m])
qed

theorem month_boundaries_gregorian_witness:
  "valid_date \<lparr>year = 2012, month = 2, day = 10\<rparr>
   \<and> get_month_boundaries \<lparr>year = 2012, month = 2, day = 10\<rparr>
     = Inr (\<lparr>year = 2012, month = 2, day = 1, hour = 0, minute = 0, second = 0,
              microsecond = 0, tzinfo = None\<rparr>,
            \<lparr>year = 2012, month = 2, day = 29, hour = 23, minute = 59, second = 59,
              microsecond = 999999, tzinfo = None\<rparr>)
   \<and> gregorian_last_day 2012 2 = 29"
proof -
  have 1: "valid_date \<lparr>year = 2012, month = 2, day = 10\<rparr>"
    by (simp add: valid_date_def MINYEAR_def MAXYEAR_def days_in_month_def DAYS_IN_MONTH_def)
  have 2: "gregorian_last_day 2012 2 = 29"
    by (simp add: gregorian_last_day_def gregorian_leap_year_def)
  from month_boundaries_gregorian[OF 1] 1 2 show ?thesis by simp
qed

lemma month_start_loop_eq:
  "month_start_loop (enumerate n dates) (int (n + length dates)) result
   = result @ filter (\<lambda>d. day d = 1) (butlast dates)"
proof (induction dates arbitrary: n result)
  case Nil
  show ?case by simp
next
  case (Cons d dates)
  have "month_start_loop (enumerate (Suc n) dates) (int (Suc n + length dates)) r
        = r @ filter (\<lambda>d. day d = 1) (butlast dates)" for r
    by (rule Cons.IH)
  then show ?case by (simp add: algebra_simps)
qed

lemma month_start_dates_eq:
  assumes "valid_date date_start"
    and "get_dates_between_range \<lparr>year = year date_start, month = month date_start, day = 1\<rparr>
           date_end False = Inr dates"
  shows "get_month_start_dates_between_range date_start date_end
         = Inr (if month date_start = month date_end \<and> year date_start = year date_end then []
                else filter (\<lambda>d. day d = 1) (butlast dates))"
  using assms(2) month_start_loop_eq[of 0 dates "[]"]
  by (simp add: get_month_start_dates_between_range_def get_month_boundaries_eq[OF assms(1)]
      datetime_date_def)

lemma month_start_example_same_month:
  "get_month_start_dates_between_range \<lparr>year = 2013, month = 9, day = 2\<rparr>
     \<lparr>year = 2013, month = 9, day = 28\<rparr> = Inr []"
  by code_simp

lemma month_start_example_four_months:
  "get_month_start_dates_between_range \<lparr>year = 2013, month = 9, day = 2\<rparr>
     \<lparr>year = 2014, month = 1, day = 1\<rparr>
   = Inr [\<lparr>year = 2013, month = 9, day = 1\<rparr>, \<lparr>year = 2013, month = 10, day = 1\<rparr>,
          \<lparr>year = 2013, month = 11, day = 1\<rparr>, \<lparr>year = 2013, month = 12, day = 1\<rparr>]"
  by code_simp

text \<open>
  C7. For valid dates with start not after end, the enumeration of all days from the
  first day of start's month to end succeeds, and \<open>get_month_start_dates_between_range\<close>
  returns the empty list when start and end have the same year and month, and otherwise
  the entries with day 1 of that enumeration without its last element. The two examples
  of the specification hold.
\<close>

theorem month_start_dates_between_range:
  assumes "valid_date date_start" and "valid_date date_end"
    and "date_le date_start date_end"
  shows "(\<exists>dates. get_dates_between_range \<lparr>year = year date_start, month = month date_start, day = 1\<rparr>
                    date_end False = Inr dates
            \<and> get_month_start_dates_between_range date_start date_end
                = Inr (if year date_start = year date_end \<and> month date_start = month date_end
                       then [] else filter (\<lambda>d. day d = 1) (butlast dates)))
       \<and> get_month_start_dates_between_range \<lparr>year = 2013, month = 9, day = 2\<rparr>
            \<lparr>year = 2013, month = 9, day = 28\<rparr> = Inr []
       \<and> get_month_start_dates_between_range \<lparr>year = 2013, month = 9, day = 2\<rparr>
            \<lparr>year = 2014, month = 1, day = 1\<rparr>
          = Inr [\<lparr>year = 2013, month = 9, day = 1\<rparr>, \<lparr>year = 2013, month = 10, day = 1\<rparr>,
                 \<lparr>year = 2013, month = 11, day = 1\<rparr>, \<lparr>year = 2013, month = 12, day = 1\<rparr>]"
proof -
  let ?first = "\<lparr>year = year date_start, month = month date_start, day = 1\<rparr>"
  have vf: "valid_date ?first" by (rule valid_first_of_month[OF assms(1)])
  have "date_le ?first date_start"
    using assms(1) by (auto simp: date_le_def date_less_def valid_date_def)
  then have "toordinal ?first \<le> toordinal date_start"
    using vf assms(1) by (simp add: toordinal_le_iff)
  moreover have "toordinal date_start \<le> toordinal date_end"
    using assms by (simp add: toordinal_le_iff)
  ultimately have le: "toordinal ?first \<le> toordinal date_end" by linarith
  have g: "get_dates_between_range ?first date_end False
           = Inr (map fromordinal [toordinal ?first..toordinal date_end])"
    using vf assms(2) le by (rule dates_between_forward)
  from month_start_dates_eq[OF assms(1) g] g
  show ?thesis
    using month_start_example_same_month month_start_example_four_months
    by (auto simp: conj_commute)
qed

theorem month_start_dates_between_range_witness:
  "valid_date \<lparr>year = 2013, month = 9, day = 2\<rparr> \<and> valid_date \<lparr>year = 2013, month = 10, day = 1\<rparr>
   \<and> date_le \<lparr>year = 2013, month = 9, day = 2\<rparr> \<lparr>year = 2013, month = 10, day = 1\<rparr>
   \<and> (\<exists>dates. get_dates_between_range \<lparr>year = 2013, month = 9, day = 1\<rparr>
                 \<lparr>year = 2013, month = 10, day = 1\<rparr> False = Inr dates
         \<and> get_month_start_dates_between_range \<lparr>year = 2013, month = 9, day = 2\<rparr>
              \<lparr>year = 2013, month = 10, day = 1\<rparr>
            = Inr (filter (\<lambda>d. day d = 1) (butlast dates)))"
proof -
  have 1: "valid_date \<lparr>year = 2013, month = 9, day = 2\<rparr>"
    by (simp add: valid_date_def MINYEAR_def MAXYEAR_def days_in_month_def DAYS_IN_MONTH_def)
  have 2: "valid_date \<lparr>year = 2013, month = 10, day = 1\<rparr>"
    by (simp add: valid_date_def MINYEAR_def MAXYEAR_def days_in_month_def DAYS_IN_MONTH_def)
  have 3: "date_le \<lparr>year = 2013, month = 9, day = 2\<rparr> \<lparr>year = 2013, month = 10, day = 1\<rparr>"
    by (simp add: date_le_def date_less_def)
  from month_start_dates_between_range[OF 1 2 3] 1 2 3 show ?thesis by simp
qed

text \<open>
  C9. On a datetime that carries an offset, \<open>get_min_time\<close> and \<open>get_max_time\<close> set the
  time of day and keep the date, but the result has no tzinfo: the offset of the
  argument is lost, because the \<open>isinstance\<close> branch rebuilds the value from year, month
  and day alone.
\<close>

theorem min_max_time_drop_offset:
  "get_min_time (ADatetime \<lparr>year = 2013, month = 10, day = 9, hour = 0, minute = 39,
      second = 59, microsecond = 0, tzinfo = Some (TZInfo (Some 7200))\<rparr>)
   = Inr \<lparr>year = 2013, month = 10, day = 9, hour = 0, minute = 0, second = 0,
          microsecond = 0, tzinfo = None\<rparr>
   \<and> get_max_time (ADatetime \<lparr>year = 2013, month = 10, day = 9, hour = 0, minute = 39,
      second = 59, microsecond = 0, tzinfo = Some (TZInfo (Some 7200))\<rparr>)
   = Inr \<lparr>year = 2013, month = 10, day = 9, hour = 23, minute = 59, second = 59,
          microsecond = 999999, tzinfo = None\<rparr>"
  by code_simp

text \<open>
  C2. The week returned for Wednesday 2018-01-10 is the week before it, Monday 2018-01-01
  to Sunday 2018-01-07: the ISO week number 2 less one is read by \<open>%W\<close> as week 1, which
  in a year that begins on a Monday is the first week. For Monday 2013-12-30, in ISO
  week 1 of 2014, the week returned is that of 2012-12-31, a year earlier. Neither week
  holds the date.
\<close>

theorem week_boundaries_miss_date:
  "get_week_boundaries \<lparr>year = 2018, month = 1, day = 10\<rparr>
     = Inr (\<lparr>year = 2018, month = 1, day = 1, hour = 0, minute = 0, second = 0,
              microsecond = 0, tzinfo = None\<rparr>,
            \<lparr>year = 2018, month = 1, day = 7, hour = 23, minute = 59, second = 59,
              microsecond = 999999, tzinfo = None\<rparr>)
   \<and> date_less \<lparr>year = 2018, month = 1, day = 7\<rparr> \<lparr>year = 2018, month = 1, day = 10\<rparr>
   \<and> get_week_boundaries \<lparr>year = 2013, month = 12, day = 30\<rparr>
     = Inr (\<lparr>year = 2012, month = 12, day = 31, hour = 0, minute = 0, second = 0,
              microsecond = 0, tzinfo = None\<rparr>,
            \<lparr>year = 2013, month = 1, day = 6, hour = 23, minute = 59, second = 59,
              microsecond = 999999, tzinfo = None\<rparr>)
   \<and> date_less \<lparr>year = 2013, month = 1, day = 6\<rparr> \<lparr>year = 2013, month = 12, day = 30\<rparr>"
  by code_simp

text \<open>
  C6. The three examples of the specification hold, but for start 2018-01-10 and end
  2018-01-12, two days of the week that begins on Monday 2018-01-08, the result is not
  empty and its entry is the Monday of the week before; for start 2016-01-01 and end
  2016-01-02 the entry is a Monday almost a year after both.
\<close>

theorem week_start_dates_wrong_week:
  "get_week_start_dates_between_range \<lparr>year = 2018, month = 1, day = 10\<rparr>
     \<lparr>year = 2018, month = 1, day = 12\<rparr> = Inr [\<lparr>year = 2018, month = 1, day = 1\<rparr>]
   \<and> get_week_start_dates_between_range \<lparr>year = 2016, month = 1, day = 1\<rparr>
     \<lparr>year = 2016, month = 1, day = 2\<rparr> = Inr [\<lparr>year = 2016, month = 12, day = 26\<rparr>]
   \<and> get_week_start_dates_between_range \<lparr>year = 2013, month = 9, day = 2\<rparr>
     \<lparr>year = 2013, month = 9, day = 8\<rparr> = Inr []
   \<and> get_week_start_dates_between_range \<lparr>year = 2013, month = 9, day = 2\<rparr>
     \<lparr>year = 2013, month = 9, day = 9\<rparr> = Inr [\<lparr>year = 2013, month = 9, day = 2\<rparr>]
   \<and> get_week_start_dates_between_range \<lparr>year = 2013, month = 9, day = 2\<rparr>
     \<lparr>year = 2013, month = 9, day = 23\<rparr>
     = Inr [\<lparr>year = 2013, month = 9, day = 2\<rparr>, \<lparr>year = 2013, month = 9, day = 9\<rparr>,
            \<lparr>year = 2013, month = 9, day = 16\<rparr>]"
  by code_simp

lemma mixed_radix_unique:
  fixes q r q' r' k :: int
  assumes "q * k + r = q' * k + r'" "0 \<le> r" "r < k" "0 \<le> r'" "r' < k"
  shows "q = q' \<and> r = r'"
proof -
  have "(q * k + r) div k = q"
    using assms(2,3) by (intro int_div_pos_eq[where r = r]) (simp_all add: mult.commute)
  moreover have "(q' * k + r') div k = q'"
    using assms(4,5) by (intro int_div_pos_eq[where r = r']) (simp_all add: mult.commute)
  ultimately have "q = q'" using assms(1) by simp
  with assms(1) show ?thesis by simp
qed

lemma timedelta_new_normal:
  fixes d s us :: int
  defines "t \<equiv> timedelta_new d s us"
  shows "(days t * 86400 + seconds t) * 1000000 + microseconds t = (d * 86400 + s) * 1000000 + us"
    and "0 \<le> seconds t" "seconds t < 86400" "0 \<le> microseconds t" "microseconds t < 1000000"
proof -
  define qu where "qu = us div 1000000"
  define ru where "ru = us mod 1000000"
  define q where "q = (s + qu) div 86400"
  define r where "r = (s + qu) mod 86400"
  have t: "days t = d + q" "seconds t = r" "microseconds t = ru"
    unfolding t_def timedelta_new_def Let_def q_def r_def qu_def ru_def by simp_all
  have 1: "us = 1000000 * qu + ru" unfolding qu_def ru_def by simp
  have 2: "s + qu = 86400 * q + r" unfolding q_def r_def by simp
  show "(days t * 86400 + seconds t) * 1000000 + microseconds t = (d * 86400 + s) * 1000000 + us"
    unfolding t using 1 2 by (simp add: algebra_simps)
  show "0 \<le> seconds t" "seconds t < 86400" "0 \<le> microseconds t" "microseconds t < 1000000"
    unfolding t r_def ru_def by simp_all
qed

lemma toordinal_date_fields:
  "toordinal \<lparr>year = year d, month = month d, day = day d, hour = hh, minute = mm, second = ss,
      microsecond = us, tzinfo = tz\<rparr> = toordinal d"
  by (simp add: toordinal_def)

lemma valid_date_fields:
  "valid_date \<lparr>year = year d, month = month d, day = day d, hour = hh, minute = mm, second = ss,
      microsecond = us, tzinfo = tz\<rparr> = valid_date d"
  by (simp add: valid_date_def)

lemma seconds_of_day_split:
  fixes S :: int
  assumes "0 \<le> S" "S < 86400"
  shows "S div 3600 * 3600 + S mod 3600 div 60 * 60 + S mod 3600 mod 60 = S"
    and "0 \<le> S div 3600" "S div 3600 \<le> 23"
    and "0 \<le> S mod 3600 div 60" "S mod 3600 div 60 \<le> 59"
    and "0 \<le> S mod 3600 mod 60" "S mod 3600 mod 60 \<le> 59"
proof -
  define h where "h = S div 3600"
  define r where "r = S mod 3600"
  define m where "m = r div 60"
  define x where "x = r mod 60"
  have 1: "S = 3600 * h + r" "0 \<le> r" "r < 3600" unfolding h_def r_def by simp_all
  have 2: "r = 60 * m + x" "0 \<le> x" "x < 60" unfolding m_def x_def by simp_all
  have "h * 3600 + m * 60 + x = S" using 1 2 by linarith
  then show "S div 3600 * 3600 + S mod 3600 div 60 * 60 + S mod 3600 mod 60 = S"
    unfolding h_def r_def m_def x_def .
  have "0 \<le> h" "h \<le> 23" "0 \<le> m" "m \<le> 59" "0 \<le> x" "x \<le> 59"
    using 1 2 assms by linarith+
  then show "0 \<le> S div 3600" "S div 3600 \<le> 23"
    "0 \<le> S mod 3600 div 60" "S mod 3600 div 60 \<le> 59"
    "0 \<le> S mod 3600 mod 60" "S mod 3600 mod 60 \<le> 59"
    unfolding h_def r_def m_def x_def .
qed

lemma datetime_add_eq:
  fixes dt :: datetime and other :: timedelta
  assumes v: "valid_datetime dt"
  defines "sum_us \<equiv> wall_clock_microseconds dt
                    + (days other * 86400 + seconds other) * 1000000 + microseconds other"
  shows "in_datetime_range sum_us \<Longrightarrow>
           \<exists>r. datetime_add dt other = Inr r \<and> wall_clock_microseconds r = sum_us
                \<and> valid_datetime r \<and> tzinfo r = tzinfo dt"
    and "\<not> in_datetime_range sum_us \<Longrightarrow> datetime_add dt other = Inl OverflowError"
proof -
  define delta where "delta = timedelta_new (toordinal dt + days other)
                    (hour dt * 3600 + minute dt * 60 + second dt + seconds other)
                    (microsecond dt + microseconds other)"
  note n = timedelta_new_normal[of "toordinal dt + days other"
      "hour dt * 3600 + minute dt * 60 + second dt + seconds other"
      "microsecond dt + microseconds other", folded delta_def]
  have tot: "sum_us = days delta * 86400000000 + seconds delta * 1000000 + microseconds delta
                      - 86400000000"
    unfolding sum_us_def wall_clock_microseconds_def using n(1) by (simp add: algebra_simps)
  have rng: "in_datetime_range sum_us \<longleftrightarrow> 0 < days delta \<and> days delta \<le> MAXORDINAL"
    unfolding in_datetime_range_def tot MAXORDINAL_def using n(2-5) by linarith
  define D where "D = days delta"
  define S where "S = seconds delta"
  define U where "U = microseconds delta"
  define hh where "hh = S div 3600"
  define mm where "mm = S mod 3600 div 60"
  define ss where "ss = S mod 3600 mod 60"
  define d where "d = fromordinal D"
  define r where "r = \<lparr>year = year d, month = month d, day = day d, hour = hh,
             minute = mm, second = ss, microsecond = U, tzinfo = tzinfo dt\<rparr>"
  have da: "datetime_add dt other
            = (if 0 < D \<and> D \<le> MAXORDINAL then Inr r else Inl OverflowError)"
    by (simp only: datetime_add_def delta_def Let_def r_def d_def hh_def mm_def ss_def
        D_def S_def U_def)
  have nn: "0 \<le> S" "S < 86400" "0 \<le> U" "U < 1000000"
    unfolding S_def U_def by (rule n(2) n(3) n(4) n(5))+
  note sp = seconds_of_day_split[OF nn(1,2), folded hh_def mm_def ss_def]
  have tot': "sum_us = D * 86400000000 + S * 1000000 + U - 86400000000"
    unfolding D_def S_def U_def by (rule tot)
  have rng': "in_datetime_range sum_us \<longleftrightarrow> 0 < D \<and> D \<le> MAXORDINAL"
    unfolding D_def by (rule rng)
  show "datetime_add dt other = Inl OverflowError" if "\<not> in_datetime_range sum_us"
    using that rng' da by simp
  show "\<exists>r. datetime_add dt other = Inr r \<and> wall_clock_microseconds r = sum_us
                \<and> valid_datetime r \<and> tzinfo r = tzinfo dt" if "in_datetime_range sum_us"
  proof -
    from that rng' have dd: "1 \<le> D" "D \<le> MAXORDINAL" by simp_all
    have res: "datetime_add dt other = Inr r"
      using dd da by simp
    have "toordinal r = toordinal d"
      unfolding r_def by (rule toordinal_date_fields)
    then have o: "toordinal r = D"
      unfolding d_def by (simp only: toordinal_fromordinal)
    have f: "hour r = hh" "minute r = mm" "second r = ss" "microsecond r = U"
      "tzinfo r = tzinfo dt"
      unfolding r_def by simp_all
    have "S * 1000000 = hh * 3600000000 + mm * 60000000 + ss * 1000000"
      using sp(1) by linarith
    then have w: "wall_clock_microseconds r = sum_us"
      unfolding wall_clock_microseconds_def tot' o f by (simp add: algebra_simps)
    have "valid_date r = valid_date d"
      unfolding r_def by (rule valid_date_fields)
    then have "valid_date r"
      unfolding d_def using valid_fromordinal[OF dd] by simp
    then have vr: "valid_datetime r"
      unfolding valid_datetime_def f using sp(2-7) nn(3,4) by simp
    from res w vr f(5) show ?thesis by blast
  qed
qed

lemma wall_clock_unique:
  assumes "valid_datetime a" "valid_datetime b"
    and "wall_clock_microseconds a = wall_clock_microseconds b"
    and "tzinfo a = tzinfo b"
  shows "a = b"
proof -
  from assms(1) have va: "valid_date a" "0 \<le> hour a" "hour a \<le> 23" "0 \<le> minute a"
    "minute a \<le> 59" "0 \<le> second a" "second a \<le> 59" "0 \<le> microsecond a"
    "microsecond a \<le> 999999" by (simp_all add: valid_datetime_def)
  from assms(2) have vb: "valid_date b" "0 \<le> hour b" "hour b \<le> 23" "0 \<le> minute b"
    "minute b \<le> 59" "0 \<le> second b" "second b \<le> 59" "0 \<le> microsecond b"
    "microsecond b \<le> 999999" by (simp_all add: valid_datetime_def)
  let ?Ta = "hour a * 3600 + (minute a * 60 + second a)"
  let ?Tb = "hour b * 3600 + (minute b * 60 + second b)"
  let ?Xa = "toordinal a * 86400 + ?Ta"
  let ?Xb = "toordinal b * 86400 + ?Tb"
  have e1: "?Xa * 1000000 + microsecond a = ?Xb * 1000000 + microsecond b"
    using assms(3) unfolding wall_clock_microseconds_def by simp
  have 1: "?Xa = ?Xb \<and> microsecond a = microsecond b"
    by (rule mixed_radix_unique[OF e1]) (use va vb in linarith)+
  then have e2: "?Xa = ?Xb" by (rule conjunct1)
  have 2: "toordinal a = toordinal b \<and> ?Ta = ?Tb"
    by (rule mixed_radix_unique[OF e2]) (use va vb in linarith)+
  then have e3: "?Ta = ?Tb" by (rule conjunct2)
  have 3: "hour a = hour b \<and> minute a * 60 + second a = minute b * 60 + second b"
    by (rule mixed_radix_unique[OF e3]) (use va vb in linarith)+
  then have e4: "minute a * 60 + second a = minute b * 60 + second b" by (rule conjunct2)
  have 4: "minute a = minute b \<and> second a = second b"
    by (rule mixed_radix_unique[OF e4]) (use va vb in linarith)+
  have "fromordinal (toordinal a) = fromordinal (toordinal b)" using 2 by simp
  then have 5: "year a = year b \<and> month a = month b \<and> day a = day b"
    using fromordinal_toordinal[OF va(1)] fromordinal_toordinal[OF vb(1)] by simp
  show ?thesis
    using 1 3 4 5 assms(4) by (intro datetime.equality) simp_all
qed

lemma timedelta_seconds_us:
  "(days (timedelta_new 0 s 0) * 86400 + seconds (timedelta_new 0 s 0)) * 1000000
     + microseconds (timedelta_new 0 s 0) = s * 1000000"
  using timedelta_new_normal(1)[of 0 s 0] by simp

lemma timedelta_neg_us:
  "(days (timedelta_neg t) * 86400 + seconds (timedelta_neg t)) * 1000000
     + microseconds (timedelta_neg t)
   = - ((days t * 86400 + seconds t) * 1000000 + microseconds t)"
  unfolding timedelta_neg_def
  using timedelta_new_normal(1)[of "- days t" "- seconds t" "- microseconds t"]
  by (simp add: algebra_simps)

lemma valid_wall_clock_range:
  assumes "valid_datetime dt"
  shows "in_datetime_range (wall_clock_microseconds dt)"
proof -
  from assms have v: "valid_date dt" "0 \<le> hour dt" "hour dt \<le> 23" "0 \<le> minute dt"
    "minute dt \<le> 59" "0 \<le> second dt" "second dt \<le> 59" "0 \<le> microsecond dt"
    "microsecond dt \<le> 999999" by (simp_all add: valid_datetime_def)
  note r = toordinal_range[OF v(1)]
  have "wall_clock_microseconds dt
        = toordinal dt * 86400000000 + hour dt * 3600000000 + minute dt * 60000000
          + second dt * 1000000 + microsecond dt - 86400000000"
    by (simp add: wall_clock_microseconds_def algebra_simps)
  then show ?thesis
    unfolding in_datetime_range_def using r v(2-9) by linarith
qed

lemma datetime_seconds_eq:
  assumes "valid_datetime dt"
  shows "datetime_seconds dt = wall_clock_microseconds dt div 1000000"
proof -
  from assms have v: "0 \<le> microsecond dt" "microsecond dt < 1000000"
    by (simp_all add: valid_datetime_def)
  have "wall_clock_microseconds dt = 1000000 * datetime_seconds dt + microsecond dt"
    by (simp add: wall_clock_microseconds_def datetime_seconds_def algebra_simps)
  then have "wall_clock_microseconds dt div 1000000 = datetime_seconds dt"
    using v by (rule int_div_pos_eq)
  then show ?thesis by simp
qed

lemma wall_clock_tzinfo_update [simp]:
  "wall_clock_microseconds (dt\<lparr>tzinfo := tz\<rparr>) = wall_clock_microseconds dt"
  by (simp add: wall_clock_microseconds_def toordinal_def)

lemma valid_datetime_tzinfo_update [simp]:
  "valid_datetime (dt\<lparr>tzinfo := tz\<rparr>) = valid_datetime dt"
  by (simp add: valid_datetime_def valid_date_def)

lemma datetime_sub_seconds:
  assumes "valid_datetime dt" and "in_datetime_range (wall_clock_microseconds dt - s * 1000000)"
  shows "\<exists>r. datetime_sub dt (timedelta_new 0 s 0) = Inr r
              \<and> wall_clock_microseconds r = wall_clock_microseconds dt - s * 1000000
              \<and> valid_datetime r \<and> tzinfo r = tzinfo dt"
proof -
  let ?X = "timedelta_neg (timedelta_new 0 s 0)"
  have "(days ?X * 86400 + seconds ?X) * 1000000 + microseconds ?X = - (s * 1000000)"
    by (simp only: timedelta_neg_us timedelta_seconds_us)
  then have e: "wall_clock_microseconds dt + (days ?X * 86400 + seconds ?X) * 1000000
                  + microseconds ?X = wall_clock_microseconds dt - s * 1000000"
    by linarith
  from datetime_add_eq(1)[OF assms(1), of ?X, unfolded e, OF assms(2)]
  show ?thesis unfolding datetime_sub_def .
qed

lemma datetime_sub_overflow:
  assumes "valid_datetime dt" and "\<not> in_datetime_range (wall_clock_microseconds dt - s * 1000000)"
  shows "datetime_sub dt (timedelta_new 0 s 0) = Inl OverflowError"
proof -
  let ?X = "timedelta_neg (timedelta_new 0 s 0)"
  have "(days ?X * 86400 + seconds ?X) * 1000000 + microseconds ?X = - (s * 1000000)"
    by (simp only: timedelta_neg_us timedelta_seconds_us)
  then have e: "wall_clock_microseconds dt + (days ?X * 86400 + seconds ?X) * 1000000
                  + microseconds ?X = wall_clock_microseconds dt - s * 1000000"
    by linarith
  from datetime_add_eq(2)[OF assms(1), of ?X, unfolded e, OF assms(2)]
  show ?thesis unfolding datetime_sub_def .
qed

lemma datetime_add_seconds:
  assumes "valid_datetime dt" and "in_datetime_range (wall_clock_microseconds dt + s * 1000000)"
  shows "\<exists>r. datetime_add dt (timedelta_new 0 s 0) = Inr r
              \<and> wall_clock_microseconds r = wall_clock_microseconds dt + s * 1000000
              \<and> valid_datetime r \<and> tzinfo r = tzinfo dt"
proof -
  let ?X = "timedelta_new 0 s 0"
  have "(days ?X * 86400 + seconds ?X) * 1000000 + microseconds ?X = s * 1000000"
    by (simp only: timedelta_seconds_us)
  then have e: "wall_clock_microseconds dt + (days ?X * 86400 + seconds ?X) * 1000000
                  + microseconds ?X = wall_clock_microseconds dt + s * 1000000"
    by linarith
  from datetime_add_eq(1)[OF assms(1), of ?X, unfolded e, OF assms(2)]
  show ?thesis .
qed

lemma datetime_add_overflow:
  assumes "valid_datetime dt" and "\<not> in_datetime_range (wall_clock_microseconds dt + s * 1000000)"
  shows "datetime_add dt (timedelta_new 0 s 0) = Inl OverflowError"
proof -
  let ?X = "timedelta_new 0 s 0"
  have "(days ?X * 86400 + seconds ?X) * 1000000 + microseconds ?X = s * 1000000"
    by (simp only: timedelta_seconds_us)
  then have e: "wall_clock_microseconds dt + (days ?X * 86400 + seconds ?X) * 1000000
                  + microseconds ?X = wall_clock_microseconds dt + s * 1000000"
    by linarith
  from datetime_add_eq(2)[OF assms(1), of ?X, unfolded e, OF assms(2)]
  show ?thesis .
qed

lemma utcoffset_zone_object_at:
  "utcoffset (zone_object_at tz s) = Inr (zone_offset_at tz s)"
  by (cases tz) simp_all

lemma fromutc_eq:
  assumes v: "valid_datetime utc"
    and r: "in_datetime_range (wall_clock_microseconds utc
              + zone_offset_at tz (wall_clock_microseconds utc div 1000000) * 1000000)"
  shows "\<exists>r. fromutc tz (utc\<lparr>tzinfo := Some (tz_object tz)\<rparr>) = Inr r \<and> valid_datetime r
           \<and> tzinfo r = Some (zone_object_at tz (wall_clock_microseconds utc div 1000000))
           \<and> wall_clock_microseconds r
               = wall_clock_microseconds utc
                 + zone_offset_at tz (wall_clock_microseconds utc div 1000000) * 1000000"
proof (cases tz)
  case UTC
  let ?dt = "utc\<lparr>tzinfo := Some PytzUTC\<rparr>"
  have dt: "valid_datetime ?dt" "wall_clock_microseconds ?dt = wall_clock_microseconds utc"
    using v by simp_all
  from datetime_add_seconds[OF dt(1), of 0] r dt(2) UTC
  obtain l where "datetime_add ?dt (timedelta_new 0 0 0) = Inr l"
    "wall_clock_microseconds l = wall_clock_microseconds utc" "valid_datetime l"
    "tzinfo l = Some PytzUTC"
    by auto
  then show ?thesis using UTC by simp
next
  case (Zone z)
  let ?u = "wall_clock_microseconds utc"
  let ?dt = "utc\<lparr>tzinfo := None\<rparr>"
  have dt: "valid_datetime ?dt" "wall_clock_microseconds ?dt = ?u"
    using v by simp_all
  have s: "datetime_seconds ?dt = ?u div 1000000"
    using datetime_seconds_eq[OF dt(1)] dt(2) by simp
  from datetime_add_seconds[OF dt(1), of "fst (zone_at z (?u div 1000000))"] r dt(2) Zone
  obtain l where l: "datetime_add ?dt (timedelta_new 0 (fst (zone_at z (?u div 1000000))) 0) = Inr l"
    "wall_clock_microseconds l = ?u + fst (zone_at z (?u div 1000000)) * 1000000"
    "valid_datetime l"
    by auto
  have "fromutc tz (utc\<lparr>tzinfo := Some (tz_object tz)\<rparr>)
        = Inr (l\<lparr>tzinfo := Some (PytzInfo (zone_id z) (zone_at z (?u div 1000000)))\<rparr>)"
    using Zone s l(1) by (simp add: Let_def)
  then show ?thesis using l(2,3) Zone by simp
qed

lemma fromutc_overflow:
  assumes v: "valid_datetime utc"
    and r: "\<not> in_datetime_range (wall_clock_microseconds utc
              + zone_offset_at tz (wall_clock_microseconds utc div 1000000) * 1000000)"
  shows "fromutc tz (utc\<lparr>tzinfo := Some (tz_object tz)\<rparr>) = Inl OverflowError"
proof (cases tz)
  case UTC
  have "in_datetime_range (wall_clock_microseconds utc)"
    by (rule valid_wall_clock_range[OF v])
  with r UTC show ?thesis by simp
next
  case (Zone z)
  let ?u = "wall_clock_microseconds utc"
  let ?dt = "utc\<lparr>tzinfo := None\<rparr>"
  have dt: "valid_datetime ?dt" "wall_clock_microseconds ?dt = ?u"
    using v by simp_all
  have s: "datetime_seconds ?dt = ?u div 1000000"
    using datetime_seconds_eq[OF dt(1)] dt(2) by simp
  have "\<not> in_datetime_range (wall_clock_microseconds ?dt
            + fst (zone_at z (?u div 1000000)) * 1000000)"
    using r Zone dt(2) by simp
  from datetime_add_overflow[OF dt(1) this]
  show ?thesis using Zone s by (simp add: Let_def)
qed

lemma astimezone_same_object:
  assumes "tzinfo i = Some (tz_object tz)"
  shows "astimezone i tz = Inr i"
  using assms by (simp add: astimezone_def)

lemma astimezone_eq:
  assumes v: "valid_datetime i" and t: "tzinfo i = Some t" and ne: "t \<noteq> tz_object tz"
    and o: "call_utcoffset t = Inr offset"
    and ru: "in_datetime_range (utc_microseconds i offset)"
    and rl: "in_datetime_range (utc_microseconds i offset
               + zone_offset_at tz (utc_microseconds i offset div 1000000) * 1000000)"
  shows "\<exists>r. astimezone i tz = Inr r \<and> valid_datetime r
           \<and> tzinfo r = Some (zone_object_at tz (utc_microseconds i offset div 1000000))
           \<and> wall_clock_microseconds r
               = utc_microseconds i offset
                 + zone_offset_at tz (utc_microseconds i offset div 1000000) * 1000000"
proof -
  let ?u = "utc_microseconds i offset"
  from datetime_sub_seconds[OF v, of offset] ru
  obtain utc where utc: "datetime_sub i (timedelta_new 0 offset 0) = Inr utc"
    "wall_clock_microseconds utc = ?u" "valid_datetime utc"
    unfolding utc_microseconds_def by blast
  from fromutc_eq[OF utc(3), of tz] rl utc(2)
  obtain r where r: "fromutc tz (utc\<lparr>tzinfo := Some (tz_object tz)\<rparr>) = Inr r"
    "valid_datetime r" "tzinfo r = Some (zone_object_at tz (?u div 1000000))"
    "wall_clock_microseconds r = ?u + zone_offset_at tz (?u div 1000000) * 1000000"
    by auto
  have "astimezone i tz = Inr r"
    unfolding astimezone_def using t ne o utc(1) r(1) by simp
  then show ?thesis using r(2-4) by simp
qed

lemma astimezone_overflow:
  assumes v: "valid_datetime i" and t: "tzinfo i = Some t" and ne: "t \<noteq> tz_object tz"
    and o: "call_utcoffset t = Inr offset"
    and r: "\<not> (in_datetime_range (utc_microseconds i offset)
               \<and> in_datetime_range (utc_microseconds i offset
                    + zone_offset_at tz (utc_microseconds i offset div 1000000) * 1000000))"
  shows "astimezone i tz = Inl OverflowError"
proof (cases "in_datetime_range (utc_microseconds i offset)")
  case False
  then have "datetime_sub i (timedelta_new 0 offset 0) = Inl OverflowError"
    unfolding utc_microseconds_def by (rule datetime_sub_overflow[OF v])
  then show ?thesis unfolding astimezone_def using t ne o by simp
next
  case True
  let ?u = "utc_microseconds i offset"
  from datetime_sub_seconds[OF v, of offset] True
  obtain utc where utc: "datetime_sub i (timedelta_new 0 offset 0) = Inr utc"
    "wall_clock_microseconds utc = ?u" "valid_datetime utc"
    unfolding utc_microseconds_def by blast
  have "\<not> in_datetime_range (wall_clock_microseconds utc
            + zone_offset_at tz (wall_clock_microseconds utc div 1000000) * 1000000)"
    using r True utc(2) by simp
  from fromutc_overflow[OF utc(3) this]
  show ?thesis unfolding astimezone_def using t ne o utc(1) by simp
qed

lemma pytz_timezone_utc: "pytz_timezone db ''UTC'' = Inr UTC"
  by (simp add: pytz_timezone_def str_upper_def upper_char_def)

lemma call_utcoffset_utc: "call_utcoffset PytzUTC = Inr 0"
  by (simp add: call_utcoffset_def)

lemma to_utc_eq:
  assumes v: "valid_datetime i" and t: "tzinfo i = Some t" and o: "call_utcoffset t = Inr offset"
    and ru: "in_datetime_range (utc_microseconds i offset)"
  shows "\<exists>u. convert_date_to_local_date db i ''UTC'' = Inr u \<and> valid_datetime u
           \<and> tzinfo u = Some PytzUTC
           \<and> wall_clock_microseconds u = utc_microseconds i offset"
proof (cases "t = PytzUTC")
  case True
  with o have "offset = 0" by (simp add: call_utcoffset_utc)
  moreover have "convert_date_to_local_date db i ''UTC'' = Inr i"
    using t True by (simp add: convert_date_to_local_date_def pytz_timezone_utc astimezone_def)
  ultimately show ?thesis using v t True by (simp add: utc_microseconds_def)
next
  case False
  then have ne: "t \<noteq> tz_object UTC" by simp
  have rl: "in_datetime_range (utc_microseconds i offset
              + zone_offset_at UTC (utc_microseconds i offset div 1000000) * 1000000)"
    using ru by simp
  from astimezone_eq[OF v t ne o ru rl]
  show ?thesis by (simp add: convert_date_to_local_date_def pytz_timezone_utc)
qed

text \<open>
  C5 as stated fails at the edge of the datetime range: one minute past midnight of
  0001-01-01 at offset +01:00 is a time of the year before in UTC, and the conversion
  raises OverflowError.
\<close>

theorem to_zone_overflow_counterexample:
  "convert_date_to_local_date (\<lambda>name. None)
     \<lparr>year = 1, month = 1, day = 1, hour = 0, minute = 1, second = 0, microsecond = 0,
       tzinfo = Some (TZInfo (Some 3600))\<rparr> ''UTC'' = Inl OverflowError"
  by code_simp

text \<open>
  C5, amended. Let i be a valid datetime with a tzinfo \<open>t\<close>, and let the zone name resolve.

  If \<open>t\<close> is the very object that \<open>pytz.timezone\<close> returns for the name,
  \<open>convert_date_to_local_date\<close> returns i as it is.

  Otherwise, if \<open>astimezone\<close> accepts the offset of \<open>t\<close> (a whole number of minutes
  strictly between -24h and 24h): when the UTC time of i and the local time of the zone at
  that instant both lie within the range of datetime, the result is a valid datetime that
  carries the zone's object for the offset applicable at that instant and is the same
  point of the UTC timeline as i; when one of the two lies outside the range, the
  conversion raises OverflowError.

  In both cases, if the offset applicable to the zone at the instant of i is the offset of
  i, converting i to UTC and the result back to the zone gives a datetime with the
  wall-clock fields of i, carrying a tzinfo of that offset.
\<close>

theorem to_zone_same_instant_round_trip:
  assumes "valid_datetime i" and "tzinfo i = Some t" and "pytz_timezone db zone_name = Inr tz"
  shows "(t = tz_object tz \<longrightarrow> convert_date_to_local_date db i zone_name = Inr i)
       \<and> (t \<noteq> tz_object tz \<and> call_utcoffset t = Inr offset \<longrightarrow>
            (if in_datetime_range (utc_microseconds i offset)
                \<and> in_datetime_range (utc_microseconds i offset
                     + zone_offset_at tz (utc_microseconds i offset div 1000000) * 1000000)
             then \<exists>r. convert_date_to_local_date db i zone_name = Inr r \<and> valid_datetime r
                    \<and> tzinfo r
                        = Some (zone_object_at tz (utc_microseconds i offset div 1000000))
                    \<and> utc_microseconds r
                          (zone_offset_at tz (utc_microseconds i offset div 1000000))
                        = utc_microseconds i offset
             else convert_date_to_local_date db i zone_name = Inl OverflowError))
       \<and> (call_utcoffset t = Inr offset \<and> in_datetime_range (utc_microseconds i offset)
            \<and> zone_offset_at tz (utc_microseconds i offset div 1000000) = offset \<longrightarrow>
            (\<exists>u b tb. convert_date_to_local_date db i ''UTC'' = Inr u
               \<and> convert_date_to_local_date db u zone_name = Inr b
               \<and> b\<lparr>tzinfo := tzinfo i\<rparr> = i
               \<and> tzinfo b = Some tb \<and> utcoffset tb = Inr offset))"
proof -
  let ?u = "utc_microseconds i offset"
  let ?o = "zone_offset_at tz (?u div 1000000)"
  have c: "convert_date_to_local_date db x zone_name = astimezone x tz" for x
    using assms(3) by (simp add: convert_date_to_local_date_def)
  have first: "convert_date_to_local_date db i zone_name = Inr i" if "t = tz_object tz"
    using that assms(2) by (simp add: c astimezone_same_object)
  have second: "\<exists>r. convert_date_to_local_date db i zone_name = Inr r \<and> valid_datetime r
      \<and> tzinfo r = Some (zone_object_at tz (?u div 1000000)) \<and> utc_microseconds r ?o = ?u"
    if ne: "t \<noteq> tz_object tz" and o: "call_utcoffset t = Inr offset"
      and ru: "in_datetime_range ?u" and rl: "in_datetime_range (?u + ?o * 1000000)"
  proof -
    from astimezone_eq[OF assms(1,2) ne o ru rl]
    obtain r where r: "astimezone i tz = Inr r" "valid_datetime r"
      "tzinfo r = Some (zone_object_at tz (?u div 1000000))"
      "wall_clock_microseconds r = ?u + ?o * 1000000"
      by blast
    have "utc_microseconds r ?o = ?u"
      using r(4) by (simp add: utc_microseconds_def)
    with r(1-3) show ?thesis unfolding c by blast
  qed
  have third: "convert_date_to_local_date db i zone_name = Inl OverflowError"
    if ne: "t \<noteq> tz_object tz" and o: "call_utcoffset t = Inr offset"
      and r: "\<not> (in_datetime_range ?u \<and> in_datetime_range (?u + ?o * 1000000))"
    unfolding c by (rule astimezone_overflow[OF assms(1,2) ne o r])
  have fourth: "\<exists>u b tb. convert_date_to_local_date db i ''UTC'' = Inr u
               \<and> convert_date_to_local_date db u zone_name = Inr b
               \<and> b\<lparr>tzinfo := tzinfo i\<rparr> = i
               \<and> tzinfo b = Some tb \<and> utcoffset tb = Inr offset"
    if o: "call_utcoffset t = Inr offset" and ru: "in_datetime_range ?u" and eq: "?o = offset"
  proof -
    from to_utc_eq[OF assms(1,2) o ru, of db]
    obtain u where u: "convert_date_to_local_date db i ''UTC'' = Inr u" "valid_datetime u"
      "tzinfo u = Some PytzUTC" "wall_clock_microseconds u = ?u"
      by blast
    have uu: "utc_microseconds u 0 = ?u"
      using u(4) by (simp add: utc_microseconds_def)
    have w: "?u + offset * 1000000 = wall_clock_microseconds i"
      by (simp add: utc_microseconds_def)
    have "\<exists>b tb. astimezone u tz = Inr b \<and> valid_datetime b
            \<and> wall_clock_microseconds b = wall_clock_microseconds i
            \<and> tzinfo b = Some tb \<and> utcoffset tb = Inr offset"
    proof (cases "PytzUTC = tz_object tz")
      case True
      then have tz: "tz = UTC" by (cases tz) simp_all
      with eq have "offset = 0" by simp
      then have "wall_clock_microseconds u = wall_clock_microseconds i"
        using u(4) by (simp add: utc_microseconds_def)
      moreover have "astimezone u tz = Inr u"
        using u(3) tz by (simp add: astimezone_same_object)
      ultimately show ?thesis using u(2,3) \<open>offset = 0\<close> by simp
    next
      case False
      have r1: "in_datetime_range (utc_microseconds u 0)"
        using ru uu by simp
      have r2: "in_datetime_range (utc_microseconds u 0
                  + zone_offset_at tz (utc_microseconds u 0 div 1000000) * 1000000)"
        unfolding uu eq w by (rule valid_wall_clock_range[OF assms(1)])
      from astimezone_eq[OF u(2,3) False call_utcoffset_utc r1 r2]
      obtain b where b: "astimezone u tz = Inr b" "valid_datetime b"
        "tzinfo b = Some (zone_object_at tz (?u div 1000000))"
        "wall_clock_microseconds b = wall_clock_microseconds i"
        unfolding uu eq w by blast
      have "utcoffset (zone_object_at tz (?u div 1000000)) = Inr offset"
        using eq by (simp add: utcoffset_zone_object_at)
      with b show ?thesis by blast
    qed
    then obtain b tb where b: "astimezone u tz = Inr b" "valid_datetime b"
      "wall_clock_microseconds b = wall_clock_microseconds i"
      "tzinfo b = Some tb" "utcoffset tb = Inr offset"
      by blast
    have "b\<lparr>tzinfo := tzinfo i\<rparr> = i"
      using b(2,3) assms(1) by (intro wall_clock_unique) simp_all
    with u(1) b(1,4,5) show ?thesis unfolding c by blast
  qed
  from first second third fourth show ?thesis by auto
qed

theorem to_zone_same_instant_round_trip_witness:
  "(\<exists>r. convert_date_to_local_date
          (\<lambda>name. if name = ''Europe/Ljubljana''
             then Some \<lparr>zone_id = ''Europe/Ljubljana'', zone_info = (4920, 0, ''LMT''),
                        zone_at = (\<lambda>t. (7200, 3600, ''CEST''))\<rparr>
             else None)
          \<lparr>year = 2013, month = 10, day = 9, hour = 0, minute = 39, second = 59,
            microsecond = 0, tzinfo = Some (TZInfo (Some 7200))\<rparr> ''Europe/Ljubljana'' = Inr r
        \<and> valid_datetime r
        \<and> tzinfo r = Some (PytzInfo ''Europe/Ljubljana'' (7200, 3600, ''CEST''))
        \<and> utc_microseconds r 7200
            = utc_microseconds \<lparr>year = 2013, month = 10, day = 9, hour = 0, minute = 39,
                second = 59, microsecond = 0, tzinfo = Some (TZInfo (Some 7200))\<rparr> 7200)
   \<and> (\<exists>u b tb. convert_date_to_local_date
          (\<lambda>name. if name = ''Europe/Ljubljana''
             then Some \<lparr>zone_id = ''Europe/Ljubljana'', zone_info = (4920, 0, ''LMT''),
                        zone_at = (\<lambda>t. (7200, 3600, ''CEST''))\<rparr>
             else None)
          \<lparr>year = 2013, month = 10, day = 9, hour = 0, minute = 39, second = 59,
            microsecond = 0, tzinfo = Some (TZInfo (Some 7200))\<rparr> ''UTC'' = Inr u
        \<and> convert_date_to_local_date
            (\<lambda>name. if name = ''Europe/Ljubljana''
               then Some \<lparr>zone_id = ''Europe/Ljubljana'', zone_info = (4920, 0, ''LMT''),
                          zone_at = (\<lambda>t. (7200, 3600, ''CEST''))\<rparr>
               else None)
            u ''Europe/Ljubljana'' = Inr b
        \<and> b\<lparr>tzinfo := Some (TZInfo (Some 7200))\<rparr>
            = \<lparr>year = 2013, month = 10, day = 9, hour = 0, minute = 39, second = 59,
                microsecond = 0, tzinfo = Some (TZInfo (Some 7200))\<rparr>
        \<and> tzinfo b = Some tb \<and> utcoffset tb = Inr 7200)
   \<and> convert_date_to_local_date
        (\<lambda>name. if name = ''Europe/Ljubljana''
           then Some \<lparr>zone_id = ''Europe/Ljubljana'', zone_info = (4920, 0, ''LMT''),
                      zone_at = (\<lambda>t. (7200, 3600, ''CEST''))\<rparr>
           else None)
        \<lparr>year = 2013, month = 10, day = 9, hour = 0, minute = 39, second = 59,
          microsecond = 0, tzinfo = Some (PytzInfo ''Europe/Ljubljana'' (4920, 0, ''LMT''))\<rparr>
        ''Europe/Ljubljana''
      = Inr \<lparr>year = 2013, month = 10, day = 9, hour = 0, minute = 39, second = 59,
          microsecond = 0, tzinfo = Some (PytzInfo ''Europe/Ljubljana'' (4920, 0, ''LMT''))\<rparr>
   \<and> convert_date_to_local_date
        (\<lambda>name. if name = ''Europe/Ljubljana''
           then Some \<lparr>zone_id = ''Europe/Ljubljana'', zone_info = (4920, 0, ''LMT''),
                      zone_at = (\<lambda>t. (7200, 3600, ''CEST''))\<rparr>
           else None)
        \<lparr>year = 1, month = 1, day = 1, hour = 0, minute = 1, second = 0,
          microsecond = 0, tzinfo = Some (TZInfo (Some 3600))\<rparr>
        ''Europe/Ljubljana''
      = Inl OverflowError"
proof -
  let ?z = "\<lparr>zone_id = ''Europe/Ljubljana'', zone_info = (4920 :: int, 0 :: int, ''LMT''),
             zone_at = (\<lambda>t :: int. (7200 :: int, 3600 :: int, ''CEST''))\<rparr>"
  let ?db = "\<lambda>name. if name = ''Europe/Ljubljana'' then Some ?z else None"
  let ?i = "\<lparr>year = 2013, month = 10, day = 9, hour = 0, minute = 39, second = 59,
             microsecond = 0, tzinfo = Some (TZInfo (Some 7200))\<rparr>"
  let ?j = "\<lparr>year = 2013, month = 10, day = 9, hour = 0, minute = 39, second = 59,
             microsecond = 0, tzinfo = Some (PytzInfo ''Europe/Ljubljana'' (4920, 0, ''LMT''))\<rparr>"
  let ?k = "\<lparr>year = 1, month = 1, day = 1, hour = 0, minute = 1, second = 0,
             microsecond = 0, tzinfo = Some (TZInfo (Some 3600))\<rparr>"
  have vi: "valid_datetime ?i" by code_simp
  have vj: "valid_datetime ?j" by code_simp
  have vk: "valid_datetime ?k" by code_simp
  have ti: "tzinfo ?i = Some (TZInfo (Some 7200))" by simp
  have tj: "tzinfo ?j = Some (PytzInfo ''Europe/Ljubljana'' (4920, 0, ''LMT''))" by simp
  have tk: "tzinfo ?k = Some (TZInfo (Some 3600))" by simp
  have z: "pytz_timezone ?db ''Europe/Ljubljana'' = Inr (Zone ?z)"
    by (simp add: pytz_timezone_def str_upper_def upper_char_def)
  have oi: "call_utcoffset (TZInfo (Some 7200)) = Inr 7200" by (simp add: call_utcoffset_def)
  have ok: "call_utcoffset (TZInfo (Some 3600)) = Inr 3600" by (simp add: call_utcoffset_def)
  have ri: "in_datetime_range (utc_microseconds ?i 7200)" by code_simp
  have ri': "in_datetime_range (utc_microseconds ?i 7200 + 7200 * 1000000)" by code_simp
  have rk: "\<not> in_datetime_range (utc_microseconds ?k 3600)" by code_simp
  from to_zone_same_instant_round_trip[where offset = 7200, OF vi ti z]
    to_zone_same_instant_round_trip[where offset = 4920, OF vj tj z]
    to_zone_same_instant_round_trip[where offset = 3600, OF vk tk z]
    oi ok ri ri' rk
  show ?thesis by simp
qed

end
